theory Spec2Isabelle
  imports Main "HOL-Library.Word"
begin

section \<open>The OpenVPN status-file reader of collectd (src/openvpn.c)\<close>

text \<open>
  The plugin reads a status file line by line with \<^verbatim>\<open>fgets\<close> into a buffer of 1024
  bytes, cuts each line into fields with \<^verbatim>\<open>strtok_r\<close>, converts counters with
  \<^verbatim>\<open>atoll\<close> and hands value lists to \<^verbatim>\<open>plugin_dispatch_values\<close>. The C library and the
  host's dispatch queue are modelled first, then the functions of the plugin in the order
  of the source file.
\<close>

subsection \<open>C strings and the C library\<close>

definition NL :: char where
  "NL = CHR 0x0A"

definition TAB :: char where
  "TAB = CHR 0x09"

text \<open>
  A \<^verbatim>\<open>char\<close> buffer read as a C string ends at its first NUL byte: \<^verbatim>\<open>strcmp\<close>,
  \<^verbatim>\<open>strtok_r\<close> and \<^verbatim>\<open>atoll\<close> never see what follows it.
\<close>

definition cstr :: "string \<Rightarrow> string" where
  "cstr buf = takeWhile (\<lambda>c. c \<noteq> CHR 0x00) buf"

text \<open>\<^verbatim>\<open>isspace\<close> and \<^verbatim>\<open>isdigit\<close> in the C locale.\<close>

definition isspace :: "char \<Rightarrow> bool" where
  "isspace c = (c = CHR '' '' \<or> c = CHR 0x09 \<or> c = CHR 0x0A \<or> c = CHR 0x0B
                \<or> c = CHR 0x0C \<or> c = CHR 0x0D)"

definition isdigit :: "char \<Rightarrow> bool" where
  "isdigit c = (48 \<le> (of_char c :: nat) \<and> (of_char c :: nat) \<le> 57)"

definition digit_val :: "char \<Rightarrow> int" where
  "digit_val c = int (of_char c) - 48"

definition LLONG_MAX :: int where
  "LLONG_MAX = 2 ^ 63 - 1"

definition LLONG_MIN :: int where
  "LLONG_MIN = - (2 ^ 63)"

text \<open>
  \<^verbatim>\<open>atoll(s)\<close> is \<^verbatim>\<open>strtoll(s, NULL, 10)\<close>: skip white space, take an optional sign, then
  accumulate decimal digits until the first character that is not a digit. Nothing is
  reported when no digit is found (the value is 0). A value outside \<^verbatim>\<open>long long\<close> is
  clamped to \<^verbatim>\<open>LLONG_MAX\<close> or \<^verbatim>\<open>LLONG_MIN\<close>, which is what \<^verbatim>\<open>strtoll\<close> returns
  (the C standard leaves \<^verbatim>\<open>atoll\<close> itself undefined there).
\<close>

fun atoll_digits :: "string \<Rightarrow> int \<Rightarrow> int" where
  "atoll_digits [] acc = acc"
| "atoll_digits (c # cs) acc =
     (if isdigit c then atoll_digits cs (acc * 10 + digit_val c) else acc)"

definition atoll_clamp :: "int \<Rightarrow> int" where
  "atoll_clamp v = (if v > LLONG_MAX then LLONG_MAX else if v < LLONG_MIN then LLONG_MIN else v)"

definition atoll :: "string \<Rightarrow> int" where
  "atoll s =
     (case dropWhile isspace s of
        [] \<Rightarrow> 0
      | c # cs \<Rightarrow>
          (if c = CHR ''-'' then atoll_clamp (- atoll_digits cs 0)
           else if c = CHR ''+'' then atoll_clamp (atoll_digits cs 0)
           else atoll_clamp (atoll_digits (c # cs) 0)))"

text \<open>
  \<^verbatim>\<open>strtok_r(ptr, delim, &saveptr)\<close>: skip leading delimiters; when the string ends there
  the result is NULL (\<open>None\<close>); otherwise the token runs up to the next delimiter, which
  is overwritten by NUL, and \<^verbatim>\<open>saveptr\<close> points behind it. The model returns the token
  and the text \<^verbatim>\<open>saveptr\<close> points to.
\<close>

definition strtok_r :: "string \<Rightarrow> string \<Rightarrow> (string \<times> string) option" where
  "strtok_r s delim =
     (let s1 = dropWhile (\<lambda>c. c \<in> set delim) s in
      if s1 = [] then None
      else Some (takeWhile (\<lambda>c. c \<notin> set delim) s1,
                 drop 1 (dropWhile (\<lambda>c. c \<notin> set delim) s1)))"

subsection \<open>Streams\<close>

text \<open>
  An open \<^verbatim>\<open>FILE\<close>: the bytes not read yet, whether reading past them gives a read error
  (\<open>bad\<close>) instead of end of file, and the stream's error indicator (\<open>err\<close>), which
  \<^verbatim>\<open>ferror\<close> tests.
\<close>

record FILE =
  bytes :: string
  bad :: bool
  err :: bool

text \<open>
  \<^verbatim>\<open>fgets\<close> reads at most \<open>n\<close> bytes, stopping behind a newline. The third component
  tells that the bytes ran out before either happened.
\<close>

fun fgets_chars :: "nat \<Rightarrow> string \<Rightarrow> string \<times> string \<times> bool" where
  "fgets_chars 0 cs = ([], cs, False)"
| "fgets_chars (Suc n) [] = ([], [], True)"
| "fgets_chars (Suc n) (c # cs) =
     (if c = NL then ([c], cs, False)
      else (case fgets_chars n cs of (l, r, e) \<Rightarrow> (c # l, r, e)))"

text \<open>
  \<^verbatim>\<open>fgets(buffer, size, fh)\<close>, the size being \<open>sz\<close> here: NULL (\<open>None\<close>) on a read
  error, and at end of file when no byte was read; otherwise the buffer, which every
  caller reads as a C string.
\<close>

definition fgets :: "nat \<Rightarrow> FILE \<Rightarrow> string option \<times> FILE" where
  "fgets sz fh =
     (case fgets_chars (sz - 1) (bytes fh) of
        (l, r, hit_end) \<Rightarrow>
          if \<not> hit_end then (Some (cstr l), fh\<lparr>bytes := r\<rparr>)
          else if bad fh then (None, fh\<lparr>bytes := [], err := True\<rparr>)
          else if l = [] then (None, fh\<lparr>bytes := []\<rparr>)
          else (Some (cstr l), fh\<lparr>bytes := []\<rparr>))"

definition ferror :: "FILE \<Rightarrow> bool" where
  "ferror fh = err fh"

text \<open>
  The file system maps a path to the file's content and to whether reading it ends in a
  read error. \<^verbatim>\<open>fopen\<close> gives a fresh stream, or NULL for a path that cannot be opened.
\<close>

type_synonym file_system = "string \<Rightarrow> (string \<times> bool) option"

definition fopen :: "file_system \<Rightarrow> string \<Rightarrow> FILE option" where
  "fopen fs path =
     (case fs path of
        None \<Rightarrow> None
      | Some (content, fails) \<Rightarrow> Some \<lparr>bytes = content, bad = fails, err = False\<rparr>)"

subsection \<open>Value lists and the plugin's state\<close>

text \<open>
  Modelled from the spec: \<^verbatim>\<open>value_list_t\<close>, \<^verbatim>\<open>value_t\<close>, \<^verbatim>\<open>derive_t\<close> and \<^verbatim>\<open>gauge_t\<close> are
  declared in plugin.h, which is not among the sources. By the specification a sample
  carries the plugin tag, a kind (the type), an optional outer (plugin) and inner (type)
  instance and one or two 64-bit values: cumulative counters or a gauge. A counter is a
  64-bit word here, so that arithmetic on it wraps around; the only gauge sent is a count
  of rows, kept as the integer it is. An instance that is left out is the empty string of
  \<^verbatim>\<open>VALUE_LIST_INIT\<close>.
\<close>

type_synonym derive_t = "64 word"

datatype value_t = Gauge int | Derive derive_t

record value_list_t =
  vl_values :: "value_t list"
  vl_plugin :: string
  vl_plugin_instance :: string
  vl_type :: string
  vl_type_instance :: string

text \<open>
  The four static flags of the plugin together with the host's side: the value lists
  dispatched so far and \<^verbatim>\<open>DATA_MAX_NAME_LEN\<close>, the size of the name fields of a value
  list. That constant is declared in plugin.h, which is not among the sources, and the
  specification gives no number for it, so it is a parameter here.
\<close>

record plugin_state =
  new_naming_schema :: bool
  collect_compression :: bool
  collect_user_count :: bool
  collect_individual_users :: bool
  DATA_MAX_NAME_LEN :: nat
  dispatched :: "value_list_t list"

text \<open>
  The flags as the source initialises them. The examples below take 128 for
  \<^verbatim>\<open>DATA_MAX_NAME_LEN\<close>; every name in them is shorter.
\<close>

definition initial_state :: "nat \<Rightarrow> plugin_state" where
  "initial_state n =
     \<lparr>new_naming_schema = False, collect_compression = True, collect_user_count = False,
      collect_individual_users = True, DATA_MAX_NAME_LEN = n, dispatched = []\<rparr>"

datatype error = IOError | UnrecognizedFormat | FieldCountMismatch

text \<open>
  Every \<^verbatim>\<open>return -1\<close> of the source is an \<open>Inl\<close> carrying the kind of failure that its
  log message names; \<^verbatim>\<open>return 0\<close> is \<open>Inr ()\<close>.
\<close>

definition status :: "error + unit \<Rightarrow> int" where
  "status r = (case r of Inl _ \<Rightarrow> - 1 | Inr _ \<Rightarrow> 0)"

text \<open>
  Modelled from the spec: \<^verbatim>\<open>sstrncpy\<close> is declared in utils/common/common.h, which is not
  among the sources. By the specification a name longer than the host's maximum
  identifier length is truncated, not rejected: \<^verbatim>\<open>sstrncpy(dest, src, n)\<close> keeps at most
  \<open>n - 1\<close> bytes, the last byte of the field being the terminator.
\<close>

definition sstrncpy :: "string \<Rightarrow> nat \<Rightarrow> string" where
  "sstrncpy src n = take (n - 1) src"

text \<open>
  Modelled from the spec: \<^verbatim>\<open>plugin_dispatch_values\<close> is the host's (plugin.h, not among the
  sources); it takes the sample for the collector. The model appends it to the value
  lists dispatched so far.
\<close>

definition plugin_dispatch_values :: "plugin_state \<Rightarrow> value_list_t \<Rightarrow> plugin_state" where
  "plugin_dispatch_values g vl = g\<lparr>dispatched := dispatched g @ [vl]\<rparr>"

text \<open>
  The three submit functions start from \<^verbatim>\<open>VALUE_LIST_INIT\<close> (all names empty) and copy
  an instance name only when the pointer is not NULL.
\<close>

definition copy_instance :: "plugin_state \<Rightarrow> string option \<Rightarrow> string" where
  "copy_instance g inst =
     (case inst of None \<Rightarrow> [] | Some s \<Rightarrow> sstrncpy s (DATA_MAX_NAME_LEN g))"

definition numusers_submit :: "plugin_state \<Rightarrow> string option \<Rightarrow> string option \<Rightarrow> int \<Rightarrow> plugin_state" where
  "numusers_submit g pinst tinst v =
     plugin_dispatch_values g
       \<lparr>vl_values = [Gauge v],
        vl_plugin = sstrncpy ''openvpn'' (DATA_MAX_NAME_LEN g),
        vl_plugin_instance = copy_instance g pinst,
        vl_type = sstrncpy ''users'' (DATA_MAX_NAME_LEN g),
        vl_type_instance = copy_instance g tinst\<rparr>"

definition iostats_submit :: "plugin_state \<Rightarrow> string option \<Rightarrow> string option \<Rightarrow> derive_t \<Rightarrow> derive_t \<Rightarrow> plugin_state" where
  "iostats_submit g pinst tinst rx tx =
     plugin_dispatch_values g
       \<lparr>vl_values = [Derive rx, Derive tx],
        vl_plugin = sstrncpy ''openvpn'' (DATA_MAX_NAME_LEN g),
        vl_plugin_instance = copy_instance g pinst,
        vl_type = sstrncpy ''if_octets'' (DATA_MAX_NAME_LEN g),
        vl_type_instance = copy_instance g tinst\<rparr>"

definition compression_submit :: "plugin_state \<Rightarrow> string option \<Rightarrow> string option \<Rightarrow> derive_t \<Rightarrow> derive_t \<Rightarrow> plugin_state" where
  "compression_submit g pinst tinst uncompressed compressed =
     plugin_dispatch_values g
       \<lparr>vl_values = [Derive uncompressed, Derive compressed],
        vl_plugin = sstrncpy ''openvpn'' (DATA_MAX_NAME_LEN g),
        vl_plugin_instance = copy_instance g pinst,
        vl_type = sstrncpy ''compression'' (DATA_MAX_NAME_LEN g),
        vl_type_instance = copy_instance g tinst\<rparr>"

subsection \<open>The tokenizer\<close>

text \<open>
  \<^verbatim>\<open>openvpn_strsplit(string, fields, size)\<close>: the loop stores the next token in
  \<^verbatim>\<open>fields[i]\<close>, counts it, and leaves once \<open>i \<ge> size\<close>. The model returns the fields
  stored; the C function returns their number. (With \<open>size = 0\<close> the first token is
  stored and counted before the test, outside the array.)
\<close>

definition DELIM :: string where
  "DELIM = [CHR '','', TAB]"

function strsplit_loop :: "string \<Rightarrow> nat \<Rightarrow> nat \<Rightarrow> string list" where
  "strsplit_loop ptr i sz =
     (case strtok_r ptr DELIM of
        None \<Rightarrow> []
      | Some (tok, saveptr) \<Rightarrow>
          (if Suc i \<ge> sz then [tok] else tok # strsplit_loop saveptr (Suc i) sz))"
  by pat_completeness auto
termination
  by (relation "measure (\<lambda>(ptr, i, sz). sz - i)") auto

declare strsplit_loop.simps [simp del]

definition openvpn_strsplit :: "string \<Rightarrow> nat \<Rightarrow> string list" where
  "openvpn_strsplit string sz = strsplit_loop string 0 sz"

subsection \<open>Single-endpoint status files\<close>

record counters =
  link_rx :: derive_t
  link_tx :: derive_t
  tun_rx :: derive_t
  tun_tx :: derive_t
  pre_compress :: derive_t
  post_compress :: derive_t
  pre_decompress :: derive_t
  post_decompress :: derive_t

definition zero_counters :: counters where
  "zero_counters =
     \<lparr>link_rx = 0, link_tx = 0, tun_rx = 0, tun_tx = 0, pre_compress = 0,
      post_compress = 0, pre_decompress = 0, post_decompress = 0\<rparr>"

text \<open>The value of \<^verbatim>\<open>atoll\<close>, a \<^verbatim>\<open>long long\<close>, stored in a \<^verbatim>\<open>derive_t\<close>.\<close>

definition derive_of :: "int \<Rightarrow> derive_t" where
  "derive_of v = word_of_int v"

text \<open>The chain of \<^verbatim>\<open>strcmp\<close> tests on a line of two fields (lines 206 to 224); \<open>flds\<close> is
  the array \<^verbatim>\<open>fields\<close> of the source.\<close>

definition single_line :: "counters \<Rightarrow> string list \<Rightarrow> counters" where
  "single_line a flds =
     (if flds ! 0 = ''TUN/TAP read bytes'' then a\<lparr>tun_tx := derive_of (atoll (flds ! 1))\<rparr>
      else if flds ! 0 = ''TUN/TAP write bytes'' then a\<lparr>tun_rx := derive_of (atoll (flds ! 1))\<rparr>
      else if flds ! 0 = ''TCP/UDP read bytes'' then a\<lparr>link_rx := derive_of (atoll (flds ! 1))\<rparr>
      else if flds ! 0 = ''TCP/UDP write bytes'' then a\<lparr>link_tx := derive_of (atoll (flds ! 1))\<rparr>
      else if flds ! 0 = ''pre-compress bytes'' then a\<lparr>pre_compress := derive_of (atoll (flds ! 1))\<rparr>
      else if flds ! 0 = ''post-compress bytes'' then a\<lparr>post_compress := derive_of (atoll (flds ! 1))\<rparr>
      else if flds ! 0 = ''pre-decompress bytes'' then a\<lparr>pre_decompress := derive_of (atoll (flds ! 1))\<rparr>
      else if flds ! 0 = ''post-decompress bytes'' then a\<lparr>post_decompress := derive_of (atoll (flds ! 1))\<rparr>
      else a)"

text \<open>A successful \<^verbatim>\<open>fgets\<close> consumes at least one byte, so the reading loops end.\<close>

lemma fgets_chars_shorter:
  "0 < n \<Longrightarrow> fgets_chars n cs = (l, r, False) \<Longrightarrow> length r < length cs"
proof (induction n cs arbitrary: l rule: fgets_chars.induct)
  case (1 cs)
  then show ?case by simp
next
  case (2 n)
  then show ?case by simp
next
  case (3 n c cs)
  show ?case
  proof (cases "c = NL")
    case True
    with "3.prems" show ?thesis by auto
  next
    case False
    obtain l' r' e' where rec: "fgets_chars n cs = (l', r', e')"
      by (cases "fgets_chars n cs") auto
    with False "3.prems" have e: "e' = False" "r' = r" by auto
    show ?thesis
    proof (cases n)
      case 0
      with rec e show ?thesis by simp
    next
      case (Suc m)
      with rec e False "3.IH" [of l'] have "length r < length cs" by simp
      then show ?thesis by simp
    qed
  qed
qed

lemma fgets_chars_end:
  "fgets_chars n cs = (l, r, True) \<Longrightarrow> l = cs \<and> r = []"
  by (induction n cs arbitrary: l rule: fgets_chars.induct) (auto split: if_splits prod.splits)

lemma fgets_shorter:
  assumes "fgets 1024 fh = (Some buffer, fh')"
  shows "length (bytes fh') < length (bytes fh)"
proof -
  obtain l r e where c: "fgets_chars (1024 - 1) (bytes fh) = (l, r, e)"
    by (cases "fgets_chars (1024 - 1) (bytes fh)") auto
  show ?thesis
  proof (cases e)
    case False
    with c have "length r < length (bytes fh)"
      using fgets_chars_shorter [of "1024 - 1" "bytes fh" l r] by simp
    moreover from assms c False have "bytes fh' = r"
      unfolding fgets_def by auto
    ultimately show ?thesis by simp
  next
    case True
    with c have "l = bytes fh"
      using fgets_chars_end [of "1024 - 1" "bytes fh" l r] by simp
    with assms c True have "bytes fh \<noteq> []" "bytes fh' = []"
      unfolding fgets_def by (auto split: if_splits)
    then show ?thesis by simp
  qed
qed

text \<open>The \<^verbatim>\<open>while (fgets(...) != NULL)\<close> loop of \<^verbatim>\<open>single_read\<close>.\<close>

function single_loop :: "FILE \<Rightarrow> counters \<Rightarrow> counters \<times> FILE" where
  "single_loop fh a =
     (case fgets 1024 fh of
        (None, fh') \<Rightarrow> (a, fh')
      | (Some buffer, fh') \<Rightarrow>
          (let flds = openvpn_strsplit buffer 4 in
           if length flds \<noteq> 2 then single_loop fh' a
           else single_loop fh' (single_line a flds)))"
  by pat_completeness auto
termination
  by (relation "measure (\<lambda>(fh, a). length (bytes fh))") (auto dest: fgets_shorter [OF sym])

declare single_loop.simps [simp del]

definition single_read :: "plugin_state \<Rightarrow> string \<Rightarrow> FILE \<Rightarrow> (error + unit) \<times> plugin_state" where
  "single_read g name fh =
     (case single_loop fh zero_counters of
        (a, fh') \<Rightarrow>
          (let g1 = iostats_submit g (Some name) (Some ''traffic'') (link_rx a) (link_tx a);
               overhead_rx = (((link_rx a - pre_decompress a) + post_decompress a) - tun_rx a);
               overhead_tx = (((link_tx a - post_compress a) + pre_compress a) - tun_tx a);
               g2 = iostats_submit g1 (Some name) (Some ''overhead'') overhead_rx overhead_tx;
               g3 = (if collect_compression g2
                     then compression_submit
                            (compression_submit g2 (Some name) (Some ''data_in'')
                               (post_decompress a) (pre_decompress a))
                            (Some name) (Some ''data_out'') (pre_compress a) (post_compress a)
                     else g2)
           in (Inr (), g3)))"

subsection \<open>Multi-client status files, version 1\<close>

definition TITLE_SINGLE :: string where
  "TITLE_SINGLE = ''OpenVPN STATISTICS'' @ [NL]"

definition TITLE_V1 :: string where
  "TITLE_V1 = ''OpenVPN CLIENT LIST'' @ [NL]"

definition TITLE_V2 :: string where
  "TITLE_V2 = ''TITLE''"

definition V1HEADER :: string where
  "V1HEADER = ''Common Name,Real Address,Bytes Received,Bytes Sent,Connected Since'' @ [NL]"

text \<open>The locals \<^verbatim>\<open>found_header\<close> and \<^verbatim>\<open>sum_users\<close> of both multi-client readers.\<close>

record multi1_state =
  found_header :: bool
  sum_users :: int

text \<open>
  How one pass through a loop body ends: \<^verbatim>\<open>continue\<close> (or the end of the body),
  \<^verbatim>\<open>break\<close>, or \<^verbatim>\<open>return -1\<close> with the kind of failure.
\<close>

datatype 'a control = Continue 'a | Break 'a | Return error 'a

text \<open>The body of the loop of \<^verbatim>\<open>multi1_read\<close> for the line in \<open>buffer\<close>.\<close>

definition multi1_body :: "plugin_state \<Rightarrow> string \<Rightarrow> string \<Rightarrow> multi1_state \<Rightarrow> (plugin_state \<times> multi1_state) control" where
  "multi1_body g name buffer s =
     (if buffer = ''ROUTING TABLE'' @ [NL] then Break (g, s)
      else if buffer = V1HEADER then Continue (g, s\<lparr>found_header := True\<rparr>)
      else if found_header s = False then Continue (g, s)
      else
        (let flds = openvpn_strsplit buffer 10 in
         if length flds < 4 then Continue (g, s)
         else
           (let s1 = (if collect_user_count g then s\<lparr>sum_users := sum_users s + 1\<rparr> else s);
                g1 = (if collect_individual_users g
                      then (if new_naming_schema g
                            then iostats_submit g (Some name) (Some (flds ! 0))
                                   (derive_of (atoll (flds ! 2))) (derive_of (atoll (flds ! 3)))
                            else iostats_submit g (Some (flds ! 0)) None
                                   (derive_of (atoll (flds ! 2))) (derive_of (atoll (flds ! 3))))
                      else g)
            in Continue (g1, s1))))"

text \<open>
  The loop of \<^verbatim>\<open>multi1_read\<close>; it is left when \<^verbatim>\<open>fgets\<close> gives NULL (end of file or
  read error) and by the \<^verbatim>\<open>break\<close> at the line \<^verbatim>\<open>ROUTING TABLE\<close>. The first component of
  the result is the error of a \<^verbatim>\<open>return\<close> inside the loop (none in this reader).
\<close>

function multi1_loop :: "plugin_state \<Rightarrow> string \<Rightarrow> FILE \<Rightarrow> multi1_state \<Rightarrow> error option \<times> plugin_state \<times> FILE \<times> multi1_state" where
  "multi1_loop g name fh s =
     (case fgets 1024 fh of
        (None, fh') \<Rightarrow> (None, g, fh', s)
      | (Some buffer, fh') \<Rightarrow>
          (case multi1_body g name buffer s of
             Continue (g1, s1) \<Rightarrow> multi1_loop g1 name fh' s1
           | Break (g1, s1) \<Rightarrow> (None, g1, fh', s1)
           | Return e (g1, s1) \<Rightarrow> (Some e, g1, fh', s1)))"
  by pat_completeness auto
termination
  by (relation "measure (\<lambda>(g, name, fh, s). length (bytes fh))") (auto dest: fgets_shorter [OF sym])

declare multi1_loop.simps [simp del]

definition multi1_read :: "plugin_state \<Rightarrow> string \<Rightarrow> FILE \<Rightarrow> (error + unit) \<times> plugin_state" where
  "multi1_read g name fh =
     (case multi1_loop g name fh \<lparr>found_header = False, sum_users = 0\<rparr> of
        (Some e, g1, fh', s) \<Rightarrow> (Inl e, g1)
      | (None, g1, fh', s) \<Rightarrow>
          if ferror fh' then (Inl IOError, g1)
          else if found_header s = False then (Inl UnrecognizedFormat, g1)
          else if collect_user_count g1
               then (Inr (), numusers_submit g1 (Some name) (Some name) (sum_users s))
               else (Inr (), g1))"

subsection \<open>Multi-client status files, versions 2 and 3\<close>

record multi2_state = multi1_state +
  idx_cname :: nat
  idx_bytes_recv :: nat
  idx_bytes_sent :: nat
  columns :: nat

text \<open>
  The \<^verbatim>\<open>for\<close> loop over the fields of a header line (lines 341 to 349). The indices
  and the column count are \<^verbatim>\<open>int\<close> in the source and never negative: one is subtracted
  from \<open>i \<ge> 2\<close> and from a field count of at least 2.
\<close>

function header_loop :: "string list \<Rightarrow> nat \<Rightarrow> multi2_state \<Rightarrow> multi2_state" where
  "header_loop flds i s =
     (if i < length flds
      then header_loop flds (Suc i)
             (if flds ! i = ''Common Name'' then s\<lparr>idx_cname := i - 1\<rparr>
              else if flds ! i = ''Bytes Received'' then s\<lparr>idx_bytes_recv := i - 1\<rparr>
              else if flds ! i = ''Bytes Sent'' then s\<lparr>idx_bytes_sent := i - 1\<rparr>
              else s)
      else s)"
  by pat_completeness auto
termination
  by (relation "measure (\<lambda>(flds, i, s). length flds - i)") auto

declare header_loop.simps [simp del]

text \<open>
  The body of the loop of \<^verbatim>\<open>multi2_read\<close> for the line in \<open>buffer\<close>. In
  \<^verbatim>\<open>fields_num == 0 || strcmp(fields[0], ...)\<close> the second test is not evaluated when the
  first holds.
\<close>

definition multi2_body :: "plugin_state \<Rightarrow> string \<Rightarrow> string \<Rightarrow> multi2_state \<Rightarrow> (plugin_state \<times> multi2_state) control" where
  "multi2_body g name buffer s =
     (let flds = openvpn_strsplit buffer 20; fields_num = length flds in
      if found_header s = False then
        (if fields_num < 2 then Continue (g, s)
         else if flds ! 0 \<noteq> ''HEADER'' then Continue (g, s)
         else if flds ! 1 \<noteq> ''CLIENT_LIST'' then Continue (g, s)
         else
           (let s1 = header_loop flds 2 s in
            if idx_cname s1 = 0 \<or> idx_bytes_recv s1 = 0 \<or> idx_bytes_sent s1 = 0
            then Break (g, s1)
            else Continue (g, s1\<lparr>columns := fields_num - 1, found_header := True\<rparr>)))
      else if fields_num = 0 \<or> flds ! 0 \<noteq> ''CLIENT_LIST'' then Break (g, s)
      else if fields_num \<noteq> columns s then Return FieldCountMismatch (g, s)
      else
        (let s2 = (if collect_user_count g then s\<lparr>sum_users := sum_users s + 1\<rparr> else s);
             g2 = (if collect_individual_users g
                   then (if new_naming_schema g
                         then iostats_submit g (Some name) (Some (flds ! idx_cname s))
                                (derive_of (atoll (flds ! idx_bytes_recv s)))
                                (derive_of (atoll (flds ! idx_bytes_sent s)))
                         else iostats_submit g (Some (flds ! idx_cname s)) None
                                (derive_of (atoll (flds ! idx_bytes_recv s)))
                                (derive_of (atoll (flds ! idx_bytes_sent s))))
                   else g)
         in Continue (g2, s2)))"

text \<open>
  The loop of \<^verbatim>\<open>multi2_read\<close>. The first component of the result is the error of the
  \<^verbatim>\<open>return\<close> inside the loop; \<open>None\<close> means the loop was left by \<^verbatim>\<open>break\<close> or because
  \<^verbatim>\<open>fgets\<close> gave NULL, and the code behind the loop runs.
\<close>

function multi2_loop :: "plugin_state \<Rightarrow> string \<Rightarrow> FILE \<Rightarrow> multi2_state \<Rightarrow> error option \<times> plugin_state \<times> FILE \<times> multi2_state" where
  "multi2_loop g name fh s =
     (case fgets 1024 fh of
        (None, fh') \<Rightarrow> (None, g, fh', s)
      | (Some buffer, fh') \<Rightarrow>
          (case multi2_body g name buffer s of
             Continue (g1, s1) \<Rightarrow> multi2_loop g1 name fh' s1
           | Break (g1, s1) \<Rightarrow> (None, g1, fh', s1)
           | Return e (g1, s1) \<Rightarrow> (Some e, g1, fh', s1)))"
  by pat_completeness auto
termination
  by (relation "measure (\<lambda>(g, name, fh, s). length (bytes fh))") (auto dest: fgets_shorter [OF sym])

declare multi2_loop.simps [simp del]

definition multi2_init :: multi2_state where
  "multi2_init =
     \<lparr>found_header = False, sum_users = 0, idx_cname = 0, idx_bytes_recv = 0,
      idx_bytes_sent = 0, columns = 0\<rparr>"

definition multi2_read :: "plugin_state \<Rightarrow> string \<Rightarrow> FILE \<Rightarrow> (error + unit) \<times> plugin_state" where
  "multi2_read g name fh =
     (case multi2_loop g name fh multi2_init of
        (Some e, g1, fh', s) \<Rightarrow> (Inl e, g1)
      | (None, g1, fh', s) \<Rightarrow>
          if ferror fh' then (Inl IOError, g1)
          else if found_header s = False then (Inl UnrecognizedFormat, g1)
          else if collect_user_count g1
               then (Inr (), numusers_submit g1 (Some name) (Some name) (sum_users s))
               else (Inr (), g1))"

subsection \<open>The read callback\<close>

record vpn_status_t =
  st_file :: string
  st_name :: string

text \<open>
  \<^verbatim>\<open>openvpn_read\<close>: open the file, read its first line and choose the reader by it.
  \<^verbatim>\<open>strncmp(buffer, TITLE_V2, strlen(TITLE_V2)) == 0\<close> compares the first five bytes.
\<close>

definition openvpn_read :: "plugin_state \<Rightarrow> vpn_status_t \<Rightarrow> file_system \<Rightarrow> (error + unit) \<times> plugin_state" where
  "openvpn_read g st fs =
     (case fopen fs (st_file st) of
        None \<Rightarrow> (Inl IOError, g)
      | Some fh \<Rightarrow>
          (case fgets 1024 fh of
             (None, fh') \<Rightarrow> (Inl IOError, g)
           | (Some buffer, fh') \<Rightarrow>
               if buffer = TITLE_SINGLE then single_read g (st_name st) fh'
               else if buffer = TITLE_V1 then multi1_read g (st_name st) fh'
               else if take (length TITLE_V2) buffer = TITLE_V2 then multi2_read g (st_name st) fh'
               else (Inl UnrecognizedFormat, g)))"

section \<open>The tokenizer's contract in the specification's words\<close>

text \<open>
  The delimiter set is comma and tab. \<open>split_on\<close> cuts a line at every delimiter, so
  adjacent delimiters give empty tokens; \<open>tokens\<close> discards the empty ones and keeps
  the order.
\<close>

definition is_delim :: "char \<Rightarrow> bool" where
  "is_delim c = (c = CHR '','' \<or> c = TAB)"

fun split_on :: "(char \<Rightarrow> bool) \<Rightarrow> string \<Rightarrow> string list" where
  "split_on d [] = [[]]"
| "split_on d (c # cs) =
     (if d c then [] # split_on d cs
      else (case split_on d cs of [] \<Rightarrow> [[c]] | t # ts \<Rightarrow> (c # t) # ts))"

definition tokens :: "string \<Rightarrow> string list" where
  "tokens line = filter (\<lambda>t. t \<noteq> []) (split_on is_delim line)"

section \<open>The numeric conversion in the claim's words\<close>






section \<open>Notions used in the statements\<close>

text \<open>
  \<open>grows g g'\<close>: the state \<open>g'\<close> is \<open>g\<close> with value lists appended to the dispatch
  queue; the flags are those of \<open>g\<close> and nothing dispatched before is changed or removed.
\<close>

definition grows :: "plugin_state \<Rightarrow> plugin_state \<Rightarrow> bool" where
  "grows g g' = (g' = g\<lparr>dispatched := dispatched g @ drop (length (dispatched g)) (dispatched g')\<rparr>)"

text \<open>\<open>prepend d g\<close>: the state \<open>g\<close> with the value lists \<open>d\<close> dispatched before its own.\<close>

definition prepend :: "value_list_t list \<Rightarrow> plugin_state \<Rightarrow> plugin_state" where
  "prepend d g = g\<lparr>dispatched := d @ dispatched g\<rparr>"

text \<open>The state a loop body leaves, however the body ends.\<close>

fun control_state :: "'a control \<Rightarrow> 'a" where
  "control_state (Continue x) = x"
| "control_state (Break x) = x"
| "control_state (Return e x) = x"

text \<open>
  \<open>multi2_reaches g name fh s g' fh' s'\<close>: the loop of \<^verbatim>\<open>multi2_read\<close>, started in the
  state \<open>g\<close> with the stream \<open>fh\<close> and the locals \<open>s\<close>, arrives at the head of the loop
  with \<open>g'\<close>, \<open>fh'\<close>, \<open>s'\<close> after reading some lines, each of which ends in
  \<^verbatim>\<open>continue\<close> or at the end of the body.
\<close>

inductive multi2_reaches :: "plugin_state \<Rightarrow> string \<Rightarrow> FILE \<Rightarrow> multi2_state \<Rightarrow> plugin_state \<Rightarrow> FILE \<Rightarrow> multi2_state \<Rightarrow> bool" where
  here: "multi2_reaches g name fh s g fh s"
| line: "fgets 1024 fh = (Some buffer, fh') \<Longrightarrow> multi2_body g name buffer s = Continue (g1, s1) \<Longrightarrow>
         multi2_reaches g1 name fh' s1 g2 fh2 s2 \<Longrightarrow> multi2_reaches g name fh s g2 fh2 s2"

code_pred multi2_reaches .

text \<open>The value lists one read cycle dispatches, as a function of the flags and the file.\<close>

definition emitted :: "plugin_state \<Rightarrow> vpn_status_t \<Rightarrow> file_system \<Rightarrow> value_list_t list" where
  "emitted g st fs = dispatched (snd (openvpn_read (g\<lparr>dispatched := []\<rparr>) st fs))"

section \<open>Inputs of the scenarios\<close>

definition stream_of :: "string \<Rightarrow> FILE" where
  "stream_of content = \<lparr>bytes = content, bad = False, err = False\<rparr>"

text \<open>A file system with one file, and the status source used in the examples.\<close>

definition one_file :: "string \<Rightarrow> string \<Rightarrow> bool \<Rightarrow> file_system" where
  "one_file path content fails = (\<lambda>p. if p = path then Some (content, fails) else None)"

definition status_source :: vpn_status_t where
  "status_source = \<lparr>st_file = ''/var/run/openvpn-status.log'', st_name = ''openvpn-status.log''\<rparr>"

text \<open>
  A sample with two zero counters, as the submit functions build it: plugin
  \<^verbatim>\<open>openvpn\<close>, the given plugin instance, type and type instance.
\<close>

definition zero_sample :: "plugin_state \<Rightarrow> string \<Rightarrow> string \<Rightarrow> string \<Rightarrow> value_list_t" where
  "zero_sample g name ty inst =
     \<lparr>vl_values = [Derive 0, Derive 0],
      vl_plugin = sstrncpy ''openvpn'' (DATA_MAX_NAME_LEN g),
      vl_plugin_instance = sstrncpy name (DATA_MAX_NAME_LEN g),
      vl_type = sstrncpy ty (DATA_MAX_NAME_LEN g),
      vl_type_instance = sstrncpy inst (DATA_MAX_NAME_LEN g)\<rparr>"

text \<open>Scenario A: the four lines behind the title line of a single-endpoint file.\<close>

definition scenario_A :: string where
  "scenario_A =
     ''TCP/UDP read bytes,1000'' @ [NL] @ ''TCP/UDP write bytes,2000'' @ [NL] @
     ''TUN/TAP read bytes,1500'' @ [NL] @ ''TUN/TAP write bytes,900'' @ [NL]"

text \<open>The four value lists that a cycle on a file with these lines dispatches.\<close>

definition scenario_A_samples :: "value_list_t list" where
  "scenario_A_samples =
     [(zero_sample (initial_state 128) ''openvpn-status.log'' ''if_octets'' ''traffic'')
        \<lparr>vl_values := [Derive 1000, Derive 2000]\<rparr>,
      (zero_sample (initial_state 128) ''openvpn-status.log'' ''if_octets'' ''overhead'')
        \<lparr>vl_values := [Derive 100, Derive 500]\<rparr>,
      zero_sample (initial_state 128) ''openvpn-status.log'' ''compression'' ''data_in'',
      zero_sample (initial_state 128) ''openvpn-status.log'' ''compression'' ''data_out'']"

text \<open>The same lines with the two TUN/TAP values exchanged.\<close>

definition scenario_A_exchanged :: string where
  "scenario_A_exchanged =
     ''TCP/UDP read bytes,1000'' @ [NL] @ ''TCP/UDP write bytes,2000'' @ [NL] @
     ''TUN/TAP read bytes,900'' @ [NL] @ ''TUN/TAP write bytes,1500'' @ [NL]"

text \<open>
  A version 2 header line as OpenVPN writes it, with a column behind \<^verbatim>\<open>Bytes Sent\<close>, data
  rows with the six fields it asks for, with one field fewer and with one more, and the
  locals of \<^verbatim>\<open>multi2_read\<close> once this header is accepted.
\<close>

definition v2_header :: string where
  "v2_header = ''HEADER,CLIENT_LIST,Common Name,Real Address,Bytes Received,Bytes Sent,Connected Since'' @ [NL]"

definition v2_row_B :: string where
  "v2_row_B = ''CLIENT_LIST,clientB,5.6.7.8,300,400,Thu Jan 1'' @ [NL]"

definition v2_row_short :: string where
  "v2_row_short = ''CLIENT_LIST,clientC,5.6.7.9,10,20'' @ [NL]"

definition v2_row_long :: string where
  "v2_row_long = ''CLIENT_LIST,clientC,5.6.7.9,10,20,Fri Jan 2,extra'' @ [NL]"

definition v2_row_D :: string where
  "v2_row_D = ''CLIENT_LIST,clientD,5.6.7.1,1,2,Sat Jan 3'' @ [NL]"

text \<open>Scenario C: the header line and the data row of the specification.\<close>

definition scenario_C :: string where
  "scenario_C =
     ''HEADER,CLIENT_LIST,Common Name,Real Address,Bytes Received,Bytes Sent'' @ [NL] @
     ''CLIENT_LIST,clientB,5.6.7.8,300,400'' @ [NL]"

text \<open>The traffic sample for \<^verbatim>\<open>clientB\<close> under the legacy naming schema.\<close>

definition sample_B :: value_list_t where
  "sample_B =
     \<lparr>vl_values = [Derive 300, Derive 400], vl_plugin = ''openvpn'',
      vl_plugin_instance = ''clientB'', vl_type = ''if_octets'', vl_type_instance = []\<rparr>"

definition v2_reading :: multi2_state where
  "v2_reading =
     \<lparr>found_header = True, sum_users = 0, idx_cname = 1, idx_bytes_recv = 3,
      idx_bytes_sent = 4, columns = 6\<rparr>"




section \<open>The overhead sample of the single-endpoint reader\<close>

text \<open>
  C3, as stated, at Scenario A: the lines of Scenario A do not give the overhead sample
  \<open>(-500, 1100)\<close>. \<^verbatim>\<open>TUN/TAP read bytes\<close> is stored in \<^verbatim>\<open>tun_tx\<close> and
  \<^verbatim>\<open>TUN/TAP write bytes\<close> in \<^verbatim>\<open>tun_rx\<close>, so the sample is \<open>(100, 500)\<close>.
\<close>

theorem scenario_A_overhead_counterexample:
  "vl_values (dispatched (snd (single_read (initial_state 128) ''status'' (stream_of scenario_A))) ! 1)
     = [Derive 100, Derive 500]
   \<and> vl_values (dispatched (snd (single_read (initial_state 128) ''status'' (stream_of scenario_A))) ! 1)
     \<noteq> [Derive (- 500), Derive 1100]"
  by code_simp

text \<open>
  C3, amended. For every pass of the single-endpoint reader, the second value list it
  dispatches is the overhead sample, with
  \<open>overhead_rx = ((link_rx - pre_decompress) + post_decompress) - tun_rx\<close> and
  \<open>overhead_tx = ((link_tx - post_compress) + pre_compress) - tun_tx\<close> computed in this
  grouping on the 64-bit counters the loop accumulated. For the lines of Scenario A the
  counters are \<open>link_rx = 1000\<close>, \<open>link_tx = 2000\<close>, \<open>tun_rx = 900\<close>, \<open>tun_tx = 1500\<close>
  and the sample is \<open>(100, 500)\<close>; the sample \<open>(-500, 1100)\<close>, with \<open>-500\<close> wrapped
  to \<open>2^64 - 500\<close>, is what the counters \<open>tun_rx = 1500\<close>, \<open>tun_tx = 900\<close> give, that is
  the file with the two TUN/TAP values exchanged.
\<close>

theorem single_read_overhead:
  "dispatched (snd (single_read g name fh)) ! Suc (length (dispatched g)) =
     \<lparr>vl_values =
        [Derive (((link_rx (fst (single_loop fh zero_counters))
                     - pre_decompress (fst (single_loop fh zero_counters)))
                    + post_decompress (fst (single_loop fh zero_counters)))
                   - tun_rx (fst (single_loop fh zero_counters))),
         Derive (((link_tx (fst (single_loop fh zero_counters))
                     - post_compress (fst (single_loop fh zero_counters)))
                    + pre_compress (fst (single_loop fh zero_counters)))
                   - tun_tx (fst (single_loop fh zero_counters)))],
      vl_plugin = sstrncpy ''openvpn'' (DATA_MAX_NAME_LEN g),
      vl_plugin_instance = sstrncpy name (DATA_MAX_NAME_LEN g),
      vl_type = sstrncpy ''if_octets'' (DATA_MAX_NAME_LEN g),
      vl_type_instance = sstrncpy ''overhead'' (DATA_MAX_NAME_LEN g)\<rparr>
   \<and> fst (single_loop (stream_of scenario_A) zero_counters) =
         \<lparr>link_rx = 1000, link_tx = 2000, tun_rx = 900, tun_tx = 1500, pre_compress = 0,
          post_compress = 0, pre_decompress = 0, post_decompress = 0\<rparr>
   \<and> vl_values (dispatched (snd (single_read (initial_state 128) ''status'' (stream_of scenario_A))) ! 1)
         = [Derive 100, Derive 500]
   \<and> fst (single_loop (stream_of scenario_A_exchanged) zero_counters) =
         \<lparr>link_rx = 1000, link_tx = 2000, tun_rx = 1500, tun_tx = 900, pre_compress = 0,
          post_compress = 0, pre_decompress = 0, post_decompress = 0\<rparr>
   \<and> vl_values (dispatched (snd (single_read (initial_state 128) ''status'' (stream_of scenario_A_exchanged))) ! 1)
         = [Derive (- 500), Derive 1100]
   \<and> (- 500 :: derive_t) = 18446744073709551116"
proof -
  obtain a fh' where l: "single_loop fh zero_counters = (a, fh')"
    by (cases "single_loop fh zero_counters") auto
  have general: "dispatched (snd (single_read g name fh)) ! Suc (length (dispatched g)) =
     \<lparr>vl_values =
        [Derive (((link_rx (fst (single_loop fh zero_counters))
                     - pre_decompress (fst (single_loop fh zero_counters)))
                    + post_decompress (fst (single_loop fh zero_counters)))
                   - tun_rx (fst (single_loop fh zero_counters))),
         Derive (((link_tx (fst (single_loop fh zero_counters))
                     - post_compress (fst (single_loop fh zero_counters)))
                    + pre_compress (fst (single_loop fh zero_counters)))
                   - tun_tx (fst (single_loop fh zero_counters)))],
      vl_plugin = sstrncpy ''openvpn'' (DATA_MAX_NAME_LEN g),
      vl_plugin_instance = sstrncpy name (DATA_MAX_NAME_LEN g),
      vl_type = sstrncpy ''if_octets'' (DATA_MAX_NAME_LEN g),
      vl_type_instance = sstrncpy ''overhead'' (DATA_MAX_NAME_LEN g)\<rparr>"
    by (simp add: single_read_def l Let_def iostats_submit_def compression_submit_def
        plugin_dispatch_values_def copy_instance_def nth_append)
  have a1: "fst (single_loop (stream_of scenario_A) zero_counters) =
         \<lparr>link_rx = 1000, link_tx = 2000, tun_rx = 900, tun_tx = 1500, pre_compress = 0,
          post_compress = 0, pre_decompress = 0, post_decompress = 0\<rparr>"
    by code_simp
  have a2: "vl_values (dispatched (snd (single_read (initial_state 128) ''status'' (stream_of scenario_A))) ! 1)
         = [Derive 100, Derive 500]"
    by code_simp
  have e1: "fst (single_loop (stream_of scenario_A_exchanged) zero_counters) =
         \<lparr>link_rx = 1000, link_tx = 2000, tun_rx = 1500, tun_tx = 900, pre_compress = 0,
          post_compress = 0, pre_decompress = 0, post_decompress = 0\<rparr>"
    by code_simp
  have e2: "vl_values (dispatched (snd (single_read (initial_state 128) ''status'' (stream_of scenario_A_exchanged))) ! 1)
         = [Derive (- 500), Derive 1100]"
    by code_simp
  have w: "(- 500 :: derive_t) = 18446744073709551116"
    by simp
  from general a1 a2 e1 e2 w show ?thesis
    by (intro conjI)
qed

section \<open>The tokenizer\<close>

lemma in_DELIM: "c \<in> set DELIM \<longleftrightarrow> is_delim c"
  by (auto simp: DELIM_def is_delim_def)

lemma split_on_nonempty: "split_on d s \<noteq> []"
  by (induction s) (auto split: list.splits)

lemma split_on_run:
  "\<forall>c \<in> set t. \<not> d c \<Longrightarrow> split_on d (t @ x # r) = (if d x then t # split_on d r else (case split_on d (x # r) of [] \<Rightarrow> [] | u # us \<Rightarrow> (t @ u) # us))"
  by (induction t) (auto split: list.splits simp: split_on_nonempty)

lemma split_on_run_end: "\<forall>c \<in> set t. \<not> d c \<Longrightarrow> split_on d t = [t]"
  by (induction t) auto

lemma split_on_clean: "t \<in> set (split_on d s) \<Longrightarrow> c \<in> set t \<Longrightarrow> \<not> d c"
proof (induction s arbitrary: t)
  case Nil
  then show ?case by simp
next
  case (Cons x s)
  show ?case
  proof (cases "d x")
    case True
    with Cons show ?thesis by auto
  next
    case False
    obtain u us where sp: "split_on d s = u # us"
      using split_on_nonempty [of d s] by (cases "split_on d s") auto
    with False Cons.prems have "t = x # u \<or> t \<in> set us" by auto
    then show ?thesis
    proof
      assume "t = x # u"
      with Cons.prems(2) have "c = x \<or> c \<in> set u" by auto
      with False Cons.IH [of u] sp show ?thesis by auto
    next
      assume "t \<in> set us"
      with Cons.IH [of t] sp Cons.prems(2) show ?thesis by auto
    qed
  qed
qed

lemma tokens_skip: "tokens (dropWhile is_delim s) = tokens s"
  by (induction s) (auto simp: tokens_def)

lemma tokens_first:
  assumes "s1 \<noteq> []" "\<not> is_delim (hd s1)"
  shows "tokens s1 = takeWhile (\<lambda>c. \<not> is_delim c) s1 # tokens (drop 1 (dropWhile (\<lambda>c. \<not> is_delim c) s1))"
proof -
  let ?t = "takeWhile (\<lambda>c. \<not> is_delim c) s1"
  let ?r = "dropWhile (\<lambda>c. \<not> is_delim c) s1"
  have s1: "s1 = ?t @ ?r" by simp
  have t: "\<forall>c \<in> set ?t. \<not> is_delim c" by (auto dest: set_takeWhileD)
  from assms have tne: "?t \<noteq> []" by (cases s1) auto
  show ?thesis
  proof (cases ?r)
    case Nil
    have "?t @ ?r = s1" by (rule takeWhile_dropWhile_id)
    then have "?t @ [] = s1" by (simp only: Nil)
    then have ts: "?t = s1" by (simp only: append_Nil2)
    have "split_on is_delim ?t = [?t]" by (rule split_on_run_end [OF t])
    then have sp: "split_on is_delim s1 = [?t]" by (simp only: ts)
    have rest: "tokens (drop 1 ?r) = []" by (simp only: Nil) (simp add: tokens_def)
    from sp tne have "tokens s1 = [?t]" by (simp add: tokens_def)
    with rest show ?thesis by (simp only:)
  next
    case (Cons x r)
    then have dx: "is_delim x" using hd_dropWhile [of "\<lambda>c. \<not> is_delim c" s1] by auto
    have "split_on is_delim s1 = split_on is_delim (?t @ x # r)" using s1 Cons by simp
    also have "\<dots> = ?t # split_on is_delim r" using split_on_run [OF t] dx by simp
    finally show ?thesis using tne Cons by (simp add: tokens_def)
  qed
qed

lemma strtok_r_None: "strtok_r s DELIM = None \<Longrightarrow> tokens s = []"
proof -
  assume "strtok_r s DELIM = None"
  then have "dropWhile is_delim s = []"
    by (simp add: strtok_r_def Let_def in_DELIM split: if_splits)
  then have "tokens (dropWhile is_delim s) = tokens []" by (rule arg_cong)
  then show ?thesis by (simp add: tokens_skip) (simp add: tokens_def)
qed

lemma strtok_r_Some:
  assumes "strtok_r s DELIM = Some (tok, rest)"
  shows "tokens s = tok # tokens rest"
proof -
  let ?s1 = "dropWhile is_delim s"
  from assms have ne: "?s1 \<noteq> []"
    and tok: "tok = takeWhile (\<lambda>c. \<not> is_delim c) ?s1"
    and rest: "rest = drop 1 (dropWhile (\<lambda>c. \<not> is_delim c) ?s1)"
    by (auto simp: strtok_r_def Let_def in_DELIM split: if_splits)
  from ne have "\<not> is_delim (hd ?s1)" using hd_dropWhile by blast
  with ne have "tokens ?s1 = tok # tokens rest" unfolding tok rest by (rule tokens_first)
  then show ?thesis by (simp add: tokens_skip)
qed

lemma strsplit_loop_tokens:
  "i < sz \<Longrightarrow> strsplit_loop s i sz = take (sz - i) (tokens s)"
proof (induction s i sz rule: strsplit_loop.induct)
  case (1 ptr i sz)
  show ?case
  proof (cases "strtok_r ptr DELIM")
    case None
    then show ?thesis by (simp add: strsplit_loop.simps [of ptr] strtok_r_None)
  next
    case (Some p)
    obtain tok rest where p: "p = (tok, rest)" by (cases p)
    with Some have tk: "tokens ptr = tok # tokens rest" by (simp add: strtok_r_Some)
    show ?thesis
    proof (cases "sz \<le> Suc i")
      case True
      with "1.prems" have "sz - i = Suc 0" by simp
      with True Some p tk show ?thesis by (simp add: strsplit_loop.simps [of ptr])
    next
      case False
      then have "Suc i < sz" by simp
      with "1.IH" [OF Some p [symmetric]] False
      have "strsplit_loop rest (Suc i) sz = take (sz - Suc i) (tokens rest)" by simp
      moreover from False have "sz - i = Suc (sz - Suc i)" by simp
      ultimately show ?thesis using False Some p tk by (simp add: strsplit_loop.simps [of ptr])
    qed
  qed
qed

lemma tokens_nil_iff: "tokens s = [] \<longleftrightarrow> (\<forall>c \<in> set s. is_delim c)"
proof (induction s)
  case Nil show ?case by (simp add: tokens_def)
next
  case (Cons c s)
  show ?case
  proof (cases "is_delim c")
    case True
    with Cons show ?thesis by (simp add: tokens_def)
  next
    case False
    then show ?thesis by (auto simp: tokens_def split: list.splits)
  qed
qed

text \<open>The newline that ends a line is not a delimiter: it stays in the last token.\<close>

lemma openvpn_strsplit_newline:
  "openvpn_strsplit (''a,b'' @ [NL]) 4 = [''a'', ''b'' @ [NL]] \<and> openvpn_strsplit [NL] 4 = [[NL]]"
  by code_simp

text \<open>
  C8, as stated, at the maximum field count 0: the loop stores and counts the first
  token before it compares the count with the maximum, so one token is returned where
  truncation to the first 0 entries gives none.
\<close>

theorem openvpn_strsplit_zero_counterexample:
  "openvpn_strsplit ''a,b'' 0 = [''a''] \<and> openvpn_strsplit ''a,b'' 0 \<noteq> take 0 (tokens ''a,b'')"
  by code_simp

text \<open>
  C8, amended. For every line and every maximum field count \<open>N \<ge> 1\<close>, the tokenizer
  returns the non-empty tokens of the line split at commas and tabs, in order, truncated
  to the first \<open>N\<close>: at most \<open>N\<close> fields, none empty, none containing a delimiter, and
  no field at all (and no error) for a line that is empty or holds delimiters only.
\<close>

theorem openvpn_strsplit_tokens:
  assumes "0 < N"
  shows "openvpn_strsplit line N = take N (tokens line)
     \<and> length (openvpn_strsplit line N) \<le> N
     \<and> (\<forall>t \<in> set (openvpn_strsplit line N). t \<noteq> [] \<and> (\<forall>c \<in> set t. \<not> is_delim c))
     \<and> ((\<forall>c \<in> set line. is_delim c) \<longrightarrow> openvpn_strsplit line N = [])"
proof -
  from assms have eq: "openvpn_strsplit line N = take N (tokens line)"
    by (simp add: openvpn_strsplit_def strsplit_loop_tokens)
  have len: "length (openvpn_strsplit line N) \<le> N"
    by (simp add: eq)
  have tok: "\<forall>t \<in> set (tokens line). t \<noteq> [] \<and> (\<forall>c \<in> set t. \<not> is_delim c)"
    by (auto simp: tokens_def dest: split_on_clean)
  have parts: "\<forall>t \<in> set (openvpn_strsplit line N). t \<noteq> [] \<and> (\<forall>c \<in> set t. \<not> is_delim c)"
    unfolding eq using tok by (meson in_set_takeD)
  have blank: "(\<forall>c \<in> set line. is_delim c) \<longrightarrow> openvpn_strsplit line N = []"
    by (simp add: eq tokens_nil_iff [symmetric])
  from eq len parts blank show ?thesis by blast
qed


theorem openvpn_strsplit_tokens_witness:
  "(0::nat) < 2
   \<and> openvpn_strsplit ('',k,,v'' @ [TAB] @ ''w'') 2 = take 2 (tokens ('',k,,v'' @ [TAB] @ ''w''))
   \<and> openvpn_strsplit ('',k,,v'' @ [TAB] @ ''w'') 2 = [''k'', ''v'']
   \<and> openvpn_strsplit ('','' @ [TAB]) 2 = []"
proof -
  have n: "(0::nat) < 2" by simp
  have t: "take 2 (tokens ('',k,,v'' @ [TAB] @ ''w'')) = [''k'', ''v'']" by code_simp
  have d: "\<forall>c \<in> set ('','' @ [TAB]). is_delim c" by (simp add: is_delim_def)
  from openvpn_strsplit_tokens [OF n, of "'',k,,v'' @ [TAB] @ ''w''"]
  have a: "openvpn_strsplit ('',k,,v'' @ [TAB] @ ''w'') 2 = take 2 (tokens ('',k,,v'' @ [TAB] @ ''w''))"
    by blast
  from openvpn_strsplit_tokens [OF n, of "'','' @ [TAB]"] d
  have b: "openvpn_strsplit ('','' @ [TAB]) 2 = []" by blast
  from n a b t show ?thesis by simp
qed

section \<open>Reading lines\<close>

text \<open>
  What \<^verbatim>\<open>fgets\<close> returns for a line that ends in a newline, for a last line without
  one, at end of file and on a read error.
\<close>

lemma fgets_chars_line:
  "NL \<notin> set l \<Longrightarrow> length l < n \<Longrightarrow> fgets_chars n (l @ NL # rest) = (l @ [NL], rest, False)"
proof (induction l arbitrary: n)
  case Nil
  then show ?case by (cases n) auto
next
  case (Cons c l)
  then obtain m where n: "n = Suc m" by (cases n) auto
  with Cons.prems have "NL \<notin> set l" "length l < m" "c \<noteq> NL" by auto
  with Cons.IH [of m] n show ?case by simp
qed

lemma fgets_chars_last:
  "NL \<notin> set l \<Longrightarrow> length l < n \<Longrightarrow> fgets_chars n l = (l, [], True)"
proof (induction l arbitrary: n)
  case Nil
  then show ?case by (cases n) auto
next
  case (Cons c l)
  then obtain m where n: "n = Suc m" by (cases n) auto
  with Cons.prems have "NL \<notin> set l" "length l < m" "c \<noteq> NL" by auto
  with Cons.IH [of m] n show ?case by simp
qed

lemma fgets_line:
  assumes "bytes fh = l @ NL # rest" "NL \<notin> set l" "length l < 1023"
  shows "fgets 1024 fh = (Some (cstr (l @ [NL])), fh\<lparr>bytes := rest\<rparr>)"
  using assms fgets_chars_line [of l "1024 - 1" rest] by (simp add: fgets_def)

lemma fgets_last:
  assumes "bytes fh = l" "l \<noteq> []" "NL \<notin> set l" "length l < 1023" "\<not> bad fh"
  shows "fgets 1024 fh = (Some (cstr l), fh\<lparr>bytes := []\<rparr>)"
  using assms fgets_chars_last [of l "1024 - 1"] by (simp add: fgets_def)

lemma fgets_chars_Nil: "0 < n \<Longrightarrow> fgets_chars n [] = ([], [], True)"
  by (cases n) auto

lemma fgets_eof:
  assumes "bytes fh = []" "\<not> bad fh"
  shows "fgets 1024 fh = (None, fh)"
  using assms by (simp add: fgets_def fgets_chars_Nil)

lemma fgets_error:
  assumes "bytes fh = []" "bad fh"
  shows "fgets 1024 fh = (None, fh\<lparr>err := True\<rparr>)"
  using assms by (simp add: fgets_def fgets_chars_Nil)

lemma fgets_Some_frame:
  assumes "fgets n fh = (Some buffer, fh')"
  shows "bad fh' = bad fh \<and> err fh' = err fh"
  using assms by (auto simp: fgets_def split: prod.splits if_splits)

lemma fgets_chars_Cons:
  "0 < n \<Longrightarrow> c \<noteq> NL \<Longrightarrow>
   fgets_chars n (c # cs) = (case fgets_chars (n - 1) cs of (l, r, e) \<Rightarrow> (c # l, r, e))"
  by (cases n) auto

lemma fgets_TITLE:
  assumes "bytes fh = ''TITLE'' @ t" "\<not> bad fh"
  shows "\<exists>buffer fh'. fgets 1024 fh = (Some buffer, fh')
           \<and> take (length TITLE_V2) buffer = TITLE_V2"
proof -
  obtain l r e where c: "fgets_chars 1018 t = (l, r, e)"
    by (cases "fgets_chars 1018 t") auto
  have "fgets_chars (1024 - 1) (''TITLE'' @ t) = (''TITLE'' @ l, r, e)"
    using c by (simp add: fgets_chars_Cons NL_def)
  with assms show ?thesis
    by (simp add: fgets_def cstr_def TITLE_V2_def)
qed

lemma single_loop_eof:
  assumes "bytes fh = []" "\<not> bad fh"
  shows "single_loop fh a = (a, fh)"
  using assms by (simp add: single_loop.simps [of fh] fgets_eof)

lemma multi1_loop_eof:
  assumes "bytes fh = []" "\<not> bad fh"
  shows "multi1_loop g name fh s = (None, g, fh, s)"
  using assms by (simp add: multi1_loop.simps [of g name fh] fgets_eof)

lemma multi2_loop_eof:
  assumes "bytes fh = []" "\<not> bad fh"
  shows "multi2_loop g name fh s = (None, g, fh, s)"
  using assms by (simp add: multi2_loop.simps [of g name fh] fgets_eof)

section \<open>The format detector\<close>

lemma TITLE_V2_prefix:
  "take (length TITLE_V2) buffer = TITLE_V2 \<Longrightarrow> buffer \<noteq> TITLE_SINGLE \<and> buffer \<noteq> TITLE_V1"
  by (auto simp: TITLE_V2_def TITLE_SINGLE_def TITLE_V1_def)

text \<open>
  C6, as stated, at the file that holds \<^verbatim>\<open>OpenVPN STATISTICS\<close> and no newline: its first
  line matches the title exactly, yet the single-endpoint reader is not selected; the
  cycle fails as an unrecognized format.
\<close>

theorem openvpn_read_title_counterexample:
  "openvpn_read (initial_state 128) status_source
      (one_file ''/var/run/openvpn-status.log'' ''OpenVPN STATISTICS'' False)
     = (Inl UnrecognizedFormat, initial_state 128)
   \<and> openvpn_read (initial_state 128) status_source
      (one_file ''/var/run/openvpn-status.log'' ''OpenVPN STATISTICS'' False)
     \<noteq> single_read (initial_state 128) (st_name status_source) (stream_of [])"
  by code_simp

text \<open>
  C6, amended. For every status file that is opened and whose first \<^verbatim>\<open>fgets\<close> succeeds,
  the detector reads exactly that one line (the first line with its newline, at most 1023
  bytes) and dispatches on it: a line equal to \<^verbatim>\<open>OpenVPN STATISTICS\<close> followed by the
  newline selects the single-endpoint reader, a line equal to \<^verbatim>\<open>OpenVPN CLIENT LIST\<close>
  followed by the newline selects multi-client version 1, a line with the prefix
  \<^verbatim>\<open>TITLE\<close> selects multi-client version 2/3, each reader continuing on the stream behind
  that line; any other first line makes the cycle fail with \<open>UnrecognizedFormat\<close>, no
  reader being run and nothing dispatched.
\<close>

theorem openvpn_read_dispatch:
  assumes "fs (st_file st) = Some (content, fails)"
    and "fgets 1024 \<lparr>bytes = content, bad = fails, err = False\<rparr> = (Some buffer, fh')"
  shows "(buffer = TITLE_SINGLE \<longrightarrow> openvpn_read g st fs = single_read g (st_name st) fh')
       \<and> (buffer = TITLE_V1 \<longrightarrow> openvpn_read g st fs = multi1_read g (st_name st) fh')
       \<and> (take (length TITLE_V2) buffer = TITLE_V2 \<longrightarrow>
            openvpn_read g st fs = multi2_read g (st_name st) fh')
       \<and> (buffer \<noteq> TITLE_SINGLE \<and> buffer \<noteq> TITLE_V1 \<and> take (length TITLE_V2) buffer \<noteq> TITLE_V2 \<longrightarrow>
            openvpn_read g st fs = (Inl UnrecognizedFormat, g))"
proof -
  have v1: "TITLE_V1 \<noteq> TITLE_SINGLE"
    by (simp add: TITLE_SINGLE_def TITLE_V1_def)
  from assms have r: "openvpn_read g st fs =
      (if buffer = TITLE_SINGLE then single_read g (st_name st) fh'
       else if buffer = TITLE_V1 then multi1_read g (st_name st) fh'
       else if take (length TITLE_V2) buffer = TITLE_V2 then multi2_read g (st_name st) fh'
       else (Inl UnrecognizedFormat, g))"
    by (simp add: openvpn_read_def fopen_def)
  show ?thesis
    unfolding r using v1 TITLE_V2_prefix [of buffer] by auto
qed

theorem openvpn_read_dispatch_witness:
  "one_file ''/var/run/openvpn-status.log'' (TITLE_SINGLE @ scenario_A) False (st_file status_source)
     = Some (TITLE_SINGLE @ scenario_A, False)
   \<and> fgets 1024 \<lparr>bytes = TITLE_SINGLE @ scenario_A, bad = False, err = False\<rparr>
     = (Some TITLE_SINGLE, stream_of scenario_A)
   \<and> openvpn_read (initial_state 128) status_source
        (one_file ''/var/run/openvpn-status.log'' (TITLE_SINGLE @ scenario_A) False)
     = single_read (initial_state 128) (st_name status_source) (stream_of scenario_A)"
proof -
  have f: "one_file ''/var/run/openvpn-status.log'' (TITLE_SINGLE @ scenario_A) False (st_file status_source)
     = Some (TITLE_SINGLE @ scenario_A, False)"
    by (simp add: one_file_def status_source_def)
  have l: "fgets 1024 \<lparr>bytes = TITLE_SINGLE @ scenario_A, bad = False, err = False\<rparr>
     = (Some TITLE_SINGLE, stream_of scenario_A)"
    by code_simp
  from openvpn_read_dispatch [where g = "initial_state 128" and st = status_source
      and fs = "one_file ''/var/run/openvpn-status.log'' (TITLE_SINGLE @ scenario_A) False", OF f l] f l
  show ?thesis
    by simp
qed

text \<open>
  C9. The title comparisons of the detector include the newline: a file that is exactly
  \<^verbatim>\<open>OpenVPN STATISTICS\<close> or \<^verbatim>\<open>OpenVPN CLIENT LIST\<close>, without a newline, selects no reader and
  the cycle fails as an unrecognized format, while with the newline the single-endpoint
  and the version 1 reader are selected; a file that starts with \<^verbatim>\<open>TITLE\<close> selects the
  version 2/3 reader whatever follows, a newline or none. (The file is read without a
  read error.)
\<close>

theorem title_without_newline:
  assumes "fs (st_file st) = Some (content, False)"
  shows "(content = ''OpenVPN STATISTICS'' \<or> content = ''OpenVPN CLIENT LIST'' \<longrightarrow>
            openvpn_read g st fs = (Inl UnrecognizedFormat, g))
       \<and> (content = ''OpenVPN STATISTICS'' @ [NL] @ rest \<longrightarrow>
            openvpn_read g st fs = single_read g (st_name st) (stream_of rest))
       \<and> (content = ''OpenVPN CLIENT LIST'' @ [NL] @ rest \<longrightarrow>
            openvpn_read g st fs = multi1_read g (st_name st) (stream_of rest))
       \<and> (content = ''TITLE'' @ t \<longrightarrow>
            openvpn_read g st fs = multi2_read g (st_name st) (snd (fgets 1024 (stream_of content))))"
proof -
  have fo: "fopen fs (st_file st) = Some (stream_of content)"
    using assms by (simp add: fopen_def stream_of_def)
  have a: "openvpn_read g st fs = (Inl UnrecognizedFormat, g)" if "content = ''OpenVPN STATISTICS''"
  proof -
    have "fgets 1024 (stream_of content) = (Some ''OpenVPN STATISTICS'', stream_of [])"
      unfolding that by code_simp
    then show ?thesis
      by (simp add: openvpn_read_def fo TITLE_SINGLE_def TITLE_V1_def TITLE_V2_def)
  qed
  have b: "openvpn_read g st fs = (Inl UnrecognizedFormat, g)" if "content = ''OpenVPN CLIENT LIST''"
  proof -
    have "fgets 1024 (stream_of content) = (Some ''OpenVPN CLIENT LIST'', stream_of [])"
      unfolding that by code_simp
    then show ?thesis
      by (simp add: openvpn_read_def fo TITLE_SINGLE_def TITLE_V1_def TITLE_V2_def)
  qed
  have c: "openvpn_read g st fs = single_read g (st_name st) (stream_of rest)"
    if "content = ''OpenVPN STATISTICS'' @ [NL] @ rest"
  proof -
    have "fgets 1024 (stream_of content) = (Some (cstr (''OpenVPN STATISTICS'' @ [NL])), (stream_of content)\<lparr>bytes := rest\<rparr>)"
      by (rule fgets_line) (simp_all add: that stream_of_def NL_def)
    then have "fgets 1024 (stream_of content) = (Some TITLE_SINGLE, stream_of rest)"
      by (simp add: cstr_def stream_of_def TITLE_SINGLE_def NL_def)
    then show ?thesis
      by (simp add: openvpn_read_def fo)
  qed
  have d: "openvpn_read g st fs = multi1_read g (st_name st) (stream_of rest)"
    if "content = ''OpenVPN CLIENT LIST'' @ [NL] @ rest"
  proof -
    have "fgets 1024 (stream_of content) = (Some (cstr (''OpenVPN CLIENT LIST'' @ [NL])), (stream_of content)\<lparr>bytes := rest\<rparr>)"
      by (rule fgets_line) (simp_all add: that stream_of_def NL_def)
    then have "fgets 1024 (stream_of content) = (Some TITLE_V1, stream_of rest)"
      by (simp add: cstr_def stream_of_def TITLE_V1_def NL_def)
    then show ?thesis
      by (simp add: openvpn_read_def fo TITLE_SINGLE_def TITLE_V1_def)
  qed
  have e: "openvpn_read g st fs = multi2_read g (st_name st) (snd (fgets 1024 (stream_of content)))"
    if "content = ''TITLE'' @ t"
  proof -
    from that obtain buffer fh' where
      "fgets 1024 (stream_of content) = (Some buffer, fh')"
      "take (length TITLE_V2) buffer = TITLE_V2"
      using fgets_TITLE [of "stream_of content" t] by (auto simp: stream_of_def)
    then show ?thesis
      using TITLE_V2_prefix [of buffer] by (simp add: openvpn_read_def fo)
  qed
  from a b c d e show ?thesis by blast
qed

theorem title_without_newline_witness:
  "one_file ''/var/run/openvpn-status.log'' ''OpenVPN CLIENT LIST'' False (st_file status_source)
     = Some (''OpenVPN CLIENT LIST'', False)
   \<and> openvpn_read (initial_state 128) status_source
        (one_file ''/var/run/openvpn-status.log'' ''OpenVPN CLIENT LIST'' False)
     = (Inl UnrecognizedFormat, initial_state 128)
   \<and> one_file ''/var/run/openvpn-status.log'' ''TITLE'' False (st_file status_source)
     = Some (''TITLE'', False)
   \<and> openvpn_read (initial_state 128) status_source
        (one_file ''/var/run/openvpn-status.log'' ''TITLE'' False)
     = multi2_read (initial_state 128) (st_name status_source) (stream_of [])"
proof -
  have f: "one_file ''/var/run/openvpn-status.log'' ''OpenVPN CLIENT LIST'' False (st_file status_source)
     = Some (''OpenVPN CLIENT LIST'', False)"
    by (simp add: one_file_def status_source_def)
  have t: "one_file ''/var/run/openvpn-status.log'' ''TITLE'' False (st_file status_source)
     = Some (''TITLE'', False)"
    by (simp add: one_file_def status_source_def)
  have r: "snd (fgets 1024 (stream_of ''TITLE'')) = stream_of []"
    by code_simp
  from title_without_newline [where g = "initial_state 128" and st = status_source
      and fs = "one_file ''/var/run/openvpn-status.log'' ''OpenVPN CLIENT LIST'' False", OF f]
  have a: "openvpn_read (initial_state 128) status_source
        (one_file ''/var/run/openvpn-status.log'' ''OpenVPN CLIENT LIST'' False)
     = (Inl UnrecognizedFormat, initial_state 128)"
    by blast
  from title_without_newline [where g = "initial_state 128" and st = status_source and t = "[]"
      and fs = "one_file ''/var/run/openvpn-status.log'' ''TITLE'' False", OF t]
  have b: "openvpn_read (initial_state 128) status_source
        (one_file ''/var/run/openvpn-status.log'' ''TITLE'' False)
     = multi2_read (initial_state 128) (st_name status_source) (stream_of [])"
    by (simp add: r)
  from f t a b show ?thesis by simp
qed

text \<open>
  C5. A status file of which the detector's \<^verbatim>\<open>fgets\<close> reads the title line and leaves
  nothing behind (the file is the title line only, read without error): behind the
  single-endpoint title the cycle succeeds and dispatches traffic \<open>(0, 0)\<close> and overhead
  \<open>(0, 0)\<close>, and the compression samples \<open>(0, 0)\<close> for \<^verbatim>\<open>data_in\<close> and \<^verbatim>\<open>data_out\<close> when
  the compression flag is on; behind the version 1 title and behind a \<^verbatim>\<open>TITLE\<close> line the
  cycle fails with \<open>UnrecognizedFormat\<close> and dispatches nothing. Every reader is a total
  function, so each returns.
\<close>

theorem title_only_file:
  assumes "fs (st_file st) = Some (content, False)"
    and "fgets 1024 (stream_of content) = (Some title, fh')"
    and "bytes fh' = []"
  shows "(title = TITLE_SINGLE \<longrightarrow>
            openvpn_read g st fs =
              (Inr (), g\<lparr>dispatched := dispatched g
                 @ [zero_sample g (st_name st) ''if_octets'' ''traffic'',
                    zero_sample g (st_name st) ''if_octets'' ''overhead'']
                 @ (if collect_compression g
                    then [zero_sample g (st_name st) ''compression'' ''data_in'',
                          zero_sample g (st_name st) ''compression'' ''data_out'']
                    else [])\<rparr>))
       \<and> (title = TITLE_V1 \<longrightarrow> openvpn_read g st fs = (Inl UnrecognizedFormat, g))
       \<and> (take (length TITLE_V2) title = TITLE_V2 \<longrightarrow>
            openvpn_read g st fs = (Inl UnrecognizedFormat, g))"
proof -
  have fo: "fopen fs (st_file st) = Some (stream_of content)"
    using assms(1) by (simp add: fopen_def stream_of_def)
  from fgets_Some_frame [OF assms(2)] have fr: "\<not> bad fh'" "\<not> err fh'"
    by (simp_all add: stream_of_def)
  have s: "single_read g (st_name st) fh' =
              (Inr (), g\<lparr>dispatched := dispatched g
                 @ [zero_sample g (st_name st) ''if_octets'' ''traffic'',
                    zero_sample g (st_name st) ''if_octets'' ''overhead'']
                 @ (if collect_compression g
                    then [zero_sample g (st_name st) ''compression'' ''data_in'',
                          zero_sample g (st_name st) ''compression'' ''data_out'']
                    else [])\<rparr>)"
    by (simp add: single_read_def single_loop_eof [OF assms(3) fr(1)] zero_counters_def
        iostats_submit_def compression_submit_def plugin_dispatch_values_def copy_instance_def
        zero_sample_def)
  have m1: "multi1_read g (st_name st) fh' = (Inl UnrecognizedFormat, g)"
    using fr by (simp add: multi1_read_def multi1_loop_eof [OF assms(3) fr(1)] ferror_def)
  have m2: "multi2_read g (st_name st) fh' = (Inl UnrecognizedFormat, g)"
    using fr by (simp add: multi2_read_def multi2_loop_eof [OF assms(3) fr(1)] ferror_def multi2_init_def)
  have v1: "TITLE_V1 \<noteq> TITLE_SINGLE"
    by (simp add: TITLE_SINGLE_def TITLE_V1_def)
  have r: "openvpn_read g st fs =
      (if title = TITLE_SINGLE then single_read g (st_name st) fh'
       else if title = TITLE_V1 then multi1_read g (st_name st) fh'
       else if take (length TITLE_V2) title = TITLE_V2 then multi2_read g (st_name st) fh'
       else (Inl UnrecognizedFormat, g))"
    by (simp add: openvpn_read_def fo assms(2))
  show ?thesis
    unfolding r s m1 m2 using v1 TITLE_V2_prefix [of title] by auto
qed

theorem title_only_file_witness:
  "openvpn_read (initial_state 128) status_source
      (one_file ''/var/run/openvpn-status.log'' TITLE_SINGLE False)
     = (Inr (), (initial_state 128)\<lparr>dispatched :=
          [zero_sample (initial_state 128) ''openvpn-status.log'' ''if_octets'' ''traffic'',
           zero_sample (initial_state 128) ''openvpn-status.log'' ''if_octets'' ''overhead'',
           zero_sample (initial_state 128) ''openvpn-status.log'' ''compression'' ''data_in'',
           zero_sample (initial_state 128) ''openvpn-status.log'' ''compression'' ''data_out'']\<rparr>)
   \<and> openvpn_read (initial_state 128) status_source
      (one_file ''/var/run/openvpn-status.log'' TITLE_V1 False)
     = (Inl UnrecognizedFormat, initial_state 128)
   \<and> openvpn_read (initial_state 128) status_source
      (one_file ''/var/run/openvpn-status.log'' (''TITLE,OpenVPN 2.4.7'' @ [NL]) False)
     = (Inl UnrecognizedFormat, initial_state 128)"
proof -
  have f: "one_file ''/var/run/openvpn-status.log'' c False (st_file status_source) = Some (c, False)" for c
    by (simp add: one_file_def status_source_def)
  have b: "bytes (stream_of []) = []"
    by (simp add: stream_of_def)
  have l1: "fgets 1024 (stream_of TITLE_SINGLE) = (Some TITLE_SINGLE, stream_of [])"
    by code_simp
  have l2: "fgets 1024 (stream_of TITLE_V1) = (Some TITLE_V1, stream_of [])"
    by code_simp
  have l3: "fgets 1024 (stream_of (''TITLE,OpenVPN 2.4.7'' @ [NL]))
              = (Some (''TITLE,OpenVPN 2.4.7'' @ [NL]), stream_of [])"
    by code_simp
  have p: "take (length TITLE_V2) (''TITLE,OpenVPN 2.4.7'' @ [NL]) = TITLE_V2"
    by (simp add: TITLE_V2_def)
  from title_only_file [where g = "initial_state 128" and st = status_source
      and fs = "one_file ''/var/run/openvpn-status.log'' TITLE_SINGLE False", OF f l1 b]
  have a1: "openvpn_read (initial_state 128) status_source
      (one_file ''/var/run/openvpn-status.log'' TITLE_SINGLE False)
     = (Inr (), (initial_state 128)\<lparr>dispatched :=
          [zero_sample (initial_state 128) ''openvpn-status.log'' ''if_octets'' ''traffic'',
           zero_sample (initial_state 128) ''openvpn-status.log'' ''if_octets'' ''overhead'',
           zero_sample (initial_state 128) ''openvpn-status.log'' ''compression'' ''data_in'',
           zero_sample (initial_state 128) ''openvpn-status.log'' ''compression'' ''data_out'']\<rparr>)"
    by (simp add: initial_state_def status_source_def)
  from title_only_file [where g = "initial_state 128" and st = status_source
      and fs = "one_file ''/var/run/openvpn-status.log'' TITLE_V1 False", OF f l2 b]
  have a2: "openvpn_read (initial_state 128) status_source
      (one_file ''/var/run/openvpn-status.log'' TITLE_V1 False)
     = (Inl UnrecognizedFormat, initial_state 128)"
    by blast
  from title_only_file [where g = "initial_state 128" and st = status_source
      and fs = "one_file ''/var/run/openvpn-status.log'' (''TITLE,OpenVPN 2.4.7'' @ [NL]) False", OF f l3 b] p
  have a3: "openvpn_read (initial_state 128) status_source
      (one_file ''/var/run/openvpn-status.log'' (''TITLE,OpenVPN 2.4.7'' @ [NL]) False)
     = (Inl UnrecognizedFormat, initial_state 128)"
    by blast
  from a1 a2 a3 show ?thesis by (intro conjI)
qed

section \<open>The readers only append to the dispatch queue\<close>

lemma grows_refl: "grows g g"
  by (simp add: grows_def)

lemma growsI: "g' = g\<lparr>dispatched := dispatched g @ out\<rparr> \<Longrightarrow> grows g g'"
  by (simp add: grows_def)

lemma growsD: "grows g g' \<Longrightarrow> \<exists>out. g' = g\<lparr>dispatched := dispatched g @ out\<rparr>"
  unfolding grows_def by (rule exI)

lemma grows_trans:
  assumes "grows g g1" "grows g1 g2"
  shows "grows g g2"
proof -
  from growsD [OF assms(1)] obtain a where a: "g1 = g\<lparr>dispatched := dispatched g @ a\<rparr>" ..
  from growsD [OF assms(2)] obtain b where b: "g2 = g1\<lparr>dispatched := dispatched g1 @ b\<rparr>" ..
  from a b have "g2 = g\<lparr>dispatched := dispatched g @ (a @ b)\<rparr>" by simp
  then show ?thesis by (rule growsI)
qed

lemma grows_iostats_submit: "grows g (iostats_submit g p t rx tx)"
  by (rule growsI) (simp add: iostats_submit_def plugin_dispatch_values_def)

lemma grows_compression_submit: "grows g (compression_submit g p t rx tx)"
  by (rule growsI) (simp add: compression_submit_def plugin_dispatch_values_def)

lemma grows_numusers_submit: "grows g (numusers_submit g p t v)"
  by (rule growsI) (simp add: numusers_submit_def plugin_dispatch_values_def)

lemma multi1_body_grows: "grows g (fst (control_state (multi1_body g name buffer s)))"
  using grows_refl [of g] grows_iostats_submit [of g]
  by (simp add: multi1_body_def Let_def)

lemma multi2_body_grows_any: "grows g (fst (control_state (multi2_body g name buffer s)))"
  using grows_refl [of g] grows_iostats_submit [of g]
  by (simp add: multi2_body_def Let_def)

lemma multi1_loop_grows: "grows g (fst (snd (multi1_loop g name fh s)))"
proof (induction g name fh s rule: multi1_loop.induct)
  case (1 g name fh s)
  obtain l fh' where f: "fgets 1024 fh = (l, fh')" by (cases "fgets 1024 fh")
  show ?case
  proof (cases l)
    case None
    with f show ?thesis by (simp add: multi1_loop.simps [of g name fh s] grows_refl)
  next
    case (Some buffer)
    have b: "grows g (fst (control_state (multi1_body g name buffer s)))"
      by (rule multi1_body_grows)
    show ?thesis
    proof (cases "multi1_body g name buffer s")
      case (Continue p)
      obtain g1 s1 where p: "p = (g1, s1)" by (cases p)
      from b Continue p have "grows g g1" by simp
      moreover from "1.IH" [OF f [symmetric] Some Continue p [symmetric]]
      have "grows g1 (fst (snd (multi1_loop g1 name fh' s1)))" .
      ultimately have "grows g (fst (snd (multi1_loop g1 name fh' s1)))" by (rule grows_trans)
      with f Some Continue p show ?thesis by (simp add: multi1_loop.simps [of g name fh s])
    next
      case (Break p)
      with b f Some show ?thesis by (cases p) (simp add: multi1_loop.simps [of g name fh s])
    next
      case (Return e p)
      with b f Some show ?thesis by (cases p) (simp add: multi1_loop.simps [of g name fh s])
    qed
  qed
qed

lemma multi2_loop_grows: "grows g (fst (snd (multi2_loop g name fh s)))"
proof (induction g name fh s rule: multi2_loop.induct)
  case (1 g name fh s)
  obtain l fh' where f: "fgets 1024 fh = (l, fh')" by (cases "fgets 1024 fh")
  show ?case
  proof (cases l)
    case None
    with f show ?thesis by (simp add: multi2_loop.simps [of g name fh s] grows_refl)
  next
    case (Some buffer)
    have b: "grows g (fst (control_state (multi2_body g name buffer s)))"
      by (rule multi2_body_grows_any)
    show ?thesis
    proof (cases "multi2_body g name buffer s")
      case (Continue p)
      obtain g1 s1 where p: "p = (g1, s1)" by (cases p)
      from b Continue p have "grows g g1" by simp
      moreover from "1.IH" [OF f [symmetric] Some Continue p [symmetric]]
      have "grows g1 (fst (snd (multi2_loop g1 name fh' s1)))" .
      ultimately have "grows g (fst (snd (multi2_loop g1 name fh' s1)))" by (rule grows_trans)
      with f Some Continue p show ?thesis by (simp add: multi2_loop.simps [of g name fh s])
    next
      case (Break p)
      with b f Some show ?thesis by (cases p) (simp add: multi2_loop.simps [of g name fh s])
    next
      case (Return e p)
      with b f Some show ?thesis by (cases p) (simp add: multi2_loop.simps [of g name fh s])
    qed
  qed
qed

lemma single_read_grows: "grows g (snd (single_read g name fh))"
proof -
  obtain a fh' where l: "single_loop fh zero_counters = (a, fh')"
    by (cases "single_loop fh zero_counters") auto
  show ?thesis
    by (rule growsI [of _ _ "drop (length (dispatched g)) (dispatched (snd (single_read g name fh)))"])
      (simp add: single_read_def l Let_def iostats_submit_def compression_submit_def
        plugin_dispatch_values_def)
qed

lemma multi1_read_grows: "grows g (snd (multi1_read g name fh))"
proof -
  obtain e g' fh' s' where l: "multi1_loop g name fh \<lparr>found_header = False, sum_users = 0\<rparr> = (e, g', fh', s')"
    by (cases "multi1_loop g name fh \<lparr>found_header = False, sum_users = 0\<rparr>") auto
  with multi1_loop_grows [of g name fh "\<lparr>found_header = False, sum_users = 0\<rparr>"]
  have g: "grows g g'" by simp
  then have "grows g (numusers_submit g' (Some name) (Some name) (sum_users s'))"
    using grows_numusers_submit by (rule grows_trans)
  with g show ?thesis
    by (cases e) (simp_all add: multi1_read_def l)
qed

lemma multi2_read_grows: "grows g (snd (multi2_read g name fh))"
proof -
  obtain e g' fh' s' where l: "multi2_loop g name fh multi2_init = (e, g', fh', s')"
    by (cases "multi2_loop g name fh multi2_init") auto
  with multi2_loop_grows [of g name fh multi2_init]
  have g: "grows g g'" by simp
  then have "grows g (numusers_submit g' (Some name) (Some name) (sum_users s'))"
    using grows_numusers_submit by (rule grows_trans)
  with g show ?thesis
    by (cases e) (simp_all add: multi2_read_def l)
qed

lemma openvpn_read_grows: "grows g (snd (openvpn_read g st fs))"
  by (simp add: openvpn_read_def grows_refl single_read_grows multi1_read_grows multi2_read_grows
      split: option.splits prod.splits)

section \<open>The column indices stay inside a data row\<close>

text \<open>
  The header scan sets an index to a field's position minus one, and the header is
  accepted only when all three indices are set. So each index is below the column count
  that a data row must have, and \<^verbatim>\<open>fields[idx_cname]\<close>, \<^verbatim>\<open>fields[idx_bytes_recv]\<close> and
  \<^verbatim>\<open>fields[idx_bytes_sent]\<close> are fields of the row.
\<close>

lemma header_loop_idx:
  "0 < i \<Longrightarrow>
   (idx_cname (header_loop flds i s) = idx_cname s \<or> Suc (idx_cname (header_loop flds i s)) < length flds)
   \<and> (idx_bytes_recv (header_loop flds i s) = idx_bytes_recv s
        \<or> Suc (idx_bytes_recv (header_loop flds i s)) < length flds)
   \<and> (idx_bytes_sent (header_loop flds i s) = idx_bytes_sent s
        \<or> Suc (idx_bytes_sent (header_loop flds i s)) < length flds)"
proof (induction flds i s rule: header_loop.induct)
  case (1 flds i s)
  show ?case
  proof (cases "i < length flds")
    case False
    then show ?thesis by (simp add: header_loop.simps [of flds i s])
  next
    case True
    let ?s = "if flds ! i = ''Common Name'' then s\<lparr>idx_cname := i - 1\<rparr>
              else if flds ! i = ''Bytes Received'' then s\<lparr>idx_bytes_recv := i - 1\<rparr>
              else if flds ! i = ''Bytes Sent'' then s\<lparr>idx_bytes_sent := i - 1\<rparr>
              else s"
    from True have h: "header_loop flds i s = header_loop flds (Suc i) ?s"
      by (simp add: header_loop.simps [of flds i s])
    from "1.IH" [OF True] True "1.prems" show ?thesis
      unfolding h by (auto split: if_splits)
  qed
qed

lemma multi2_accepted_header_in_range:
  assumes "\<not> found_header s" "idx_cname s = 0" "idx_bytes_recv s = 0" "idx_bytes_sent s = 0"
    and "multi2_body g name buffer s = Continue (g1, s1)" "found_header s1"
  shows "columns s1 = length (openvpn_strsplit buffer 20) - 1
       \<and> idx_cname s1 < columns s1 \<and> idx_bytes_recv s1 < columns s1 \<and> idx_bytes_sent s1 < columns s1"
proof -
  let ?f = "openvpn_strsplit buffer 20"
  let ?h = "header_loop ?f 2 s"
  from assms(1,5,6) have s1: "s1 = ?h\<lparr>columns := length ?f - 1, found_header := True\<rparr>"
    and nz: "idx_cname ?h \<noteq> 0" "idx_bytes_recv ?h \<noteq> 0" "idx_bytes_sent ?h \<noteq> 0"
    by (auto simp: multi2_body_def Let_def split: if_splits)
  from header_loop_idx [of 2 ?f s] assms(2,3,4) nz
  have "Suc (idx_cname ?h) < length ?f" "Suc (idx_bytes_recv ?h) < length ?f"
    "Suc (idx_bytes_sent ?h) < length ?f" by auto
  with s1 show ?thesis by auto
qed

section \<open>Field count mismatch in version 2/3 files\<close>

lemma multi2_reaches_loop:
  "multi2_reaches g name fh s g2 fh2 s2 \<Longrightarrow> multi2_loop g name fh s = multi2_loop g2 name fh2 s2"
proof (induction rule: multi2_reaches.induct)
  case (here g name fh s)
  show ?case by simp
next
  case (line fh buffer fh' g name s g1 s1 g2 fh2 s2)
  then show ?case by (simp add: multi2_loop.simps [of g name fh s])
qed

lemma multi2_body_grows:
  assumes "multi2_body g name buffer s = Continue (g1, s1)"
  shows "grows g g1"
  using assms grows_refl [of g] grows_iostats_submit [of g]
  by (auto simp: multi2_body_def Let_def split: if_splits)

lemma multi2_body_columns:
  assumes "multi2_body g name buffer s = Continue (g1, s1)"
  shows "(found_header s \<longrightarrow> found_header s1 \<and> columns s1 = columns s)
       \<and> (\<not> found_header s \<and> found_header s1 \<longrightarrow> columns s1 = length (openvpn_strsplit buffer 20) - 1)"
  using assms by (auto simp: multi2_body_def Let_def split: if_splits)

lemma multi2_reaches_frame:
  "multi2_reaches g name fh s g2 fh2 s2 \<Longrightarrow>
     grows g g2 \<and> (found_header s \<longrightarrow> found_header s2 \<and> columns s2 = columns s)"
proof (induction rule: multi2_reaches.induct)
  case (here g name fh s)
  show ?case by (simp add: grows_refl)
next
  case (line fh buffer fh' g name s g1 s1 g2 fh2 s2)
  from multi2_body_grows [OF line.hyps(2)] line.IH have "grows g g2"
    by (blast intro: grows_trans)
  with multi2_body_columns [OF line.hyps(2)] line.IH show ?case by simp
qed

text \<open>
  C4. In a pass of the version 2/3 reader, let the loop reach a header line that it
  accepts (the body sets \<^verbatim>\<open>found_header\<close>), then process any number of lines, and then
  read a row whose first field is \<^verbatim>\<open>CLIENT_LIST\<close> and whose number of fields differs from
  the header's number of fields minus one. Then the pass returns the failure
  \<open>FieldCountMismatch\<close> with the state it had before that row: what was dispatched for
  earlier rows is still there, nothing is dispatched for this row or after it, and the
  rest of the stream is not read (it does not occur in the result).
\<close>

theorem multi2_field_count_mismatch:
  assumes "multi2_reaches g0 name fh0 multi2_init gh fhh sh"
    and "\<not> found_header sh"
    and "fgets 1024 fhh = (Some header, fh1)"
    and "multi2_body gh name header sh = Continue (g1, s1)"
    and "found_header s1"
    and "multi2_reaches g1 name fh1 s1 g fh s"
    and "fgets 1024 fh = (Some row, fh')"
    and "openvpn_strsplit row 20 \<noteq> []"
    and "openvpn_strsplit row 20 ! 0 = ''CLIENT_LIST''"
    and "length (openvpn_strsplit row 20) \<noteq> length (openvpn_strsplit header 20) - 1"
  shows "multi2_read g0 name fh0 = (Inl FieldCountMismatch, g)
       \<and> (\<exists>earlier. g = g0\<lparr>dispatched := dispatched g0 @ earlier\<rparr>)"
proof -
  from multi2_body_columns [OF assms(4)] assms(2,5)
  have c1: "columns s1 = length (openvpn_strsplit header 20) - 1" by blast
  from multi2_reaches_frame [OF assms(6)] assms(5)
  have fs: "found_header s" and cs: "columns s = columns s1" by blast+
  have "grows g0 gh" using multi2_reaches_frame [OF assms(1)] by blast
  moreover have "grows gh g1" by (rule multi2_body_grows [OF assms(4)])
  moreover have "grows g1 g" using multi2_reaches_frame [OF assms(6)] by blast
  ultimately have gr: "grows g0 g" by (blast intro: grows_trans)
  have body: "multi2_body g name row s = Return FieldCountMismatch (g, s)"
    using fs cs c1 assms(8,9,10) by (simp add: multi2_body_def Let_def)
  have "multi2_loop g0 name fh0 multi2_init = multi2_loop gh name fhh sh"
    by (rule multi2_reaches_loop [OF assms(1)])
  also have "\<dots> = multi2_loop g1 name fh1 s1"
    using assms(3,4) by (simp add: multi2_loop.simps [of gh name fhh sh])
  also have "\<dots> = multi2_loop g name fh s"
    by (rule multi2_reaches_loop [OF assms(6)])
  also have "\<dots> = (Some FieldCountMismatch, g, fh', s)"
    using assms(7) body by (simp add: multi2_loop.simps [of g name fh s])
  finally have r: "multi2_read g0 name fh0 = (Inl FieldCountMismatch, g)"
    by (simp add: multi2_read_def)
  with growsD [OF gr] show ?thesis by blast
qed


text \<open>
  The header asks for six fields; the row for \<^verbatim>\<open>clientC\<close> has five. The sample for
  \<^verbatim>\<open>clientB\<close> stays, no sample follows for \<^verbatim>\<open>clientC\<close> or \<^verbatim>\<open>clientD\<close>.
\<close>

theorem multi2_field_count_mismatch_witness:
  "multi2_read (initial_state 128) ''openvpn-status.log''
      (stream_of (v2_header @ v2_row_B @ v2_row_short @ v2_row_D))
     = (Inl FieldCountMismatch, (initial_state 128)\<lparr>dispatched := [sample_B]\<rparr>)
   \<and> length (openvpn_strsplit v2_row_short 20) = 5
   \<and> length (openvpn_strsplit v2_header 20) - 1 = 6"
proof -
  let ?i = "initial_state 128"
  let ?a = "(initial_state 128)\<lparr>dispatched := [sample_B]\<rparr>"
  let ?n = "''openvpn-status.log''"
  have r0: "multi2_reaches ?i ?n (stream_of (v2_header @ v2_row_B @ v2_row_short @ v2_row_D)) multi2_init
              ?i (stream_of (v2_header @ v2_row_B @ v2_row_short @ v2_row_D)) multi2_init"
    by (rule multi2_reaches.here)
  have nf: "\<not> found_header multi2_init"
    by (simp add: multi2_init_def)
  have l1: "fgets 1024 (stream_of (v2_header @ v2_row_B @ v2_row_short @ v2_row_D))
              = (Some v2_header, stream_of (v2_row_B @ v2_row_short @ v2_row_D))"
    by code_simp
  have b1: "multi2_body ?i ?n v2_header multi2_init = Continue (?i, v2_reading)"
    by code_simp
  have f1: "found_header v2_reading"
    by (simp add: v2_reading_def)
  have l2: "fgets 1024 (stream_of (v2_row_B @ v2_row_short @ v2_row_D))
              = (Some v2_row_B, stream_of (v2_row_short @ v2_row_D))"
    by code_simp
  have b2: "multi2_body ?i ?n v2_row_B v2_reading = Continue (?a, v2_reading)"
    by code_simp
  have r1: "multi2_reaches ?i ?n (stream_of (v2_row_B @ v2_row_short @ v2_row_D)) v2_reading
              ?a (stream_of (v2_row_short @ v2_row_D)) v2_reading"
    by (rule multi2_reaches.line [OF l2 b2 multi2_reaches.here])
  have l3: "fgets 1024 (stream_of (v2_row_short @ v2_row_D)) = (Some v2_row_short, stream_of v2_row_D)"
    by code_simp
  have ne: "openvpn_strsplit v2_row_short 20 \<noteq> []"
    by code_simp
  have cl: "openvpn_strsplit v2_row_short 20 ! 0 = ''CLIENT_LIST''"
    by code_simp
  have n5: "length (openvpn_strsplit v2_row_short 20) = 5"
    by code_simp
  have n6: "length (openvpn_strsplit v2_header 20) - 1 = 6"
    by code_simp
  from n5 n6 have mm: "length (openvpn_strsplit v2_row_short 20) \<noteq> length (openvpn_strsplit v2_header 20) - 1"
    by simp
  from multi2_field_count_mismatch [OF r0 nf l1 b1 f1 r1 l3 ne cl mm] n5 n6
  show ?thesis by simp
qed

text \<open>A row with one field more than the header asks for ends the pass in the same way.\<close>

lemma multi2_one_field_more:
  "multi2_read (initial_state 128) ''openvpn-status.log''
      (stream_of (v2_header @ v2_row_B @ v2_row_long @ v2_row_D))
     = (Inl FieldCountMismatch, (initial_state 128)\<lparr>dispatched := [sample_B]\<rparr>)"
  by code_simp

section \<open>Scenario C: the column map\<close>

text \<open>
  C1, as stated, at its own input: the last field of the header line is
  \<^verbatim>\<open>Bytes Sent\<close> with the newline of the line, which is not the column name, so the scan
  leaves \<^verbatim>\<open>idx_bytes_sent\<close> at 0 (and has \<^verbatim>\<open>Bytes Received\<close> at 3, not 2); the header is
  not accepted, no sample is dispatched and the pass fails as an unrecognized format.
\<close>

theorem scenario_C_counterexample:
  "idx_bytes_recv (header_loop
       (openvpn_strsplit (''HEADER,CLIENT_LIST,Common Name,Real Address,Bytes Received,Bytes Sent'' @ [NL]) 20)
       2 multi2_init) = 3
   \<and> idx_bytes_sent (header_loop
       (openvpn_strsplit (''HEADER,CLIENT_LIST,Common Name,Real Address,Bytes Received,Bytes Sent'' @ [NL]) 20)
       2 multi2_init) = 0
   \<and> multi2_read (initial_state 128) ''openvpn-status.log'' (stream_of scenario_C)
       = (Inl UnrecognizedFormat, initial_state 128)"
  by code_simp

text \<open>
  C1, amended. The scan of the header fields \<^verbatim>\<open>HEADER\<close>, \<^verbatim>\<open>CLIENT_LIST\<close>,
  \<^verbatim>\<open>Common Name\<close>, \<^verbatim>\<open>Real Address\<close>, \<^verbatim>\<open>Bytes Received\<close>, \<^verbatim>\<open>Bytes Sent\<close> resolves Common Name
  to the data-row index 1, Bytes Received to 3 and Bytes Sent to 4 (the field's index
  minus one). For that header line with one more column behind \<^verbatim>\<open>Bytes Sent\<close>, followed
  by the row of \<^verbatim>\<open>clientB\<close> with the values 300 and 400 in these columns, the pass succeeds
  and, per-client samples being enabled, dispatches exactly one traffic sample, for
  \<^verbatim>\<open>clientB\<close> with rx = 300 and tx = 400; \<^verbatim>\<open>clientB\<close> is the plugin instance under the
  legacy naming schema and the type instance under the new one.
\<close>

theorem scenario_C_amended:
  "idx_cname (header_loop
       [''HEADER'', ''CLIENT_LIST'', ''Common Name'', ''Real Address'', ''Bytes Received'', ''Bytes Sent'']
       2 multi2_init) = 1
   \<and> idx_bytes_recv (header_loop
       [''HEADER'', ''CLIENT_LIST'', ''Common Name'', ''Real Address'', ''Bytes Received'', ''Bytes Sent'']
       2 multi2_init) = 3
   \<and> idx_bytes_sent (header_loop
       [''HEADER'', ''CLIENT_LIST'', ''Common Name'', ''Real Address'', ''Bytes Received'', ''Bytes Sent'']
       2 multi2_init) = 4
   \<and> multi2_read (initial_state 128) ''openvpn-status.log'' (stream_of (v2_header @ v2_row_B))
       = (Inr (), (initial_state 128)\<lparr>dispatched := [sample_B]\<rparr>)
   \<and> multi2_read ((initial_state 128)\<lparr>new_naming_schema := True\<rparr>) ''openvpn-status.log''
        (stream_of (v2_header @ v2_row_B))
       = (Inr (), (initial_state 128)\<lparr>new_naming_schema := True,
            dispatched := [sample_B\<lparr>vl_plugin_instance := ''openvpn-status.log'',
                                    vl_type_instance := ''clientB''\<rparr>]\<rparr>)"
  by code_simp

section \<open>Read errors in the single-endpoint reader\<close>


text \<open>
  C2 at a failing input. A single-endpoint file whose reading ends in a read error
  behind the first counter line: \<^verbatim>\<open>single_read\<close> does not test \<^verbatim>\<open>ferror\<close>, so the cycle
  returns 0 (success) and dispatches the traffic, overhead and compression samples from
  what was read before the error. The version 1 reader, on a file cut by a read error in
  the same way, returns the failure \<open>IOError\<close> through its \<^verbatim>\<open>ferror\<close> test.
\<close>

theorem single_read_ignores_read_error:
  "status (fst (openvpn_read (initial_state 128) status_source
      (one_file ''/var/run/openvpn-status.log''
         (TITLE_SINGLE @ ''TCP/UDP read bytes,1000'' @ [NL] @ ''TCP/UDP write'') True))) = 0
  \<and> openvpn_read (initial_state 128) status_source
      (one_file ''/var/run/openvpn-status.log''
         (TITLE_SINGLE @ ''TCP/UDP read bytes,1000'' @ [NL] @ ''TCP/UDP write'') True)
     = (Inr (),
        (initial_state 128)\<lparr>dispatched :=
          [(zero_sample (initial_state 128) ''openvpn-status.log'' ''if_octets'' ''traffic'')
             \<lparr>vl_values := [Derive 1000, Derive 0]\<rparr>,
           (zero_sample (initial_state 128) ''openvpn-status.log'' ''if_octets'' ''overhead'')
             \<lparr>vl_values := [Derive 1000, Derive 0]\<rparr>,
           zero_sample (initial_state 128) ''openvpn-status.log'' ''compression'' ''data_in'',
           zero_sample (initial_state 128) ''openvpn-status.log'' ''compression'' ''data_out'']\<rparr>)
  \<and> openvpn_read (initial_state 128) status_source
      (one_file ''/var/run/openvpn-status.log''
         (TITLE_V1 @ V1HEADER @ ''clientA,1.2.3.4,500,700'' @ [NL] @ ''clientB,1.2'') True)
     = (Inl IOError,
        (initial_state 128)\<lparr>dispatched :=
          [(zero_sample (initial_state 128) ''clientA'' ''if_octets'' [])
             \<lparr>vl_values := [Derive 500, Derive 700]\<rparr>]\<rparr>)"
  by code_simp


section \<open>Two read cycles on the same file\<close>

lemma prepend_flags [simp]:
  "new_naming_schema (prepend d g) = new_naming_schema g"
  "collect_compression (prepend d g) = collect_compression g"
  "collect_user_count (prepend d g) = collect_user_count g"
  "collect_individual_users (prepend d g) = collect_individual_users g"
  "DATA_MAX_NAME_LEN (prepend d g) = DATA_MAX_NAME_LEN g"
  "dispatched (prepend d g) = d @ dispatched g"
  by (simp_all add: prepend_def)

lemma copy_instance_prepend [simp]: "copy_instance (prepend d g) inst = copy_instance g inst"
  by (cases inst) (simp_all add: copy_instance_def)

lemma iostats_submit_prepend:
  "iostats_submit (prepend d g) p t rx tx = prepend d (iostats_submit g p t rx tx)"
  by (simp add: iostats_submit_def plugin_dispatch_values_def)

lemma compression_submit_prepend:
  "compression_submit (prepend d g) p t rx tx = prepend d (compression_submit g p t rx tx)"
  by (simp add: compression_submit_def plugin_dispatch_values_def)

lemma numusers_submit_prepend:
  "numusers_submit (prepend d g) p t v = prepend d (numusers_submit g p t v)"
  by (simp add: numusers_submit_def plugin_dispatch_values_def)

lemma multi1_body_prepend:
  "multi1_body (prepend d g) name buffer s = map_control (apfst (prepend d)) (multi1_body g name buffer s)"
  by (simp add: multi1_body_def Let_def iostats_submit_prepend)

lemma multi2_body_prepend:
  "multi2_body (prepend d g) name buffer s = map_control (apfst (prepend d)) (multi2_body g name buffer s)"
  by (simp add: multi2_body_def Let_def iostats_submit_prepend)

lemma multi1_loop_prepend:
  "multi1_loop (prepend d g) name fh s =
     (case multi1_loop g name fh s of (e, g', r) \<Rightarrow> (e, prepend d g', r))"
proof (induction g name fh s rule: multi1_loop.induct)
  case (1 g name fh s)
  obtain l fh' where f: "fgets 1024 fh = (l, fh')" by (cases "fgets 1024 fh")
  show ?case
  proof (cases l)
    case None
    with f show ?thesis
      by (simp add: multi1_loop.simps [of "prepend d g" name fh s] multi1_loop.simps [of g name fh s])
  next
    case (Some buffer)
    show ?thesis
    proof (cases "multi1_body g name buffer s")
      case (Continue p)
      obtain g1 s1 where p: "p = (g1, s1)" by (cases p)
      from "1.IH" [OF f [symmetric] Some Continue p [symmetric]] f Some Continue p
      show ?thesis
        by (simp add: multi1_loop.simps [of "prepend d g" name fh s] multi1_loop.simps [of g name fh s]
            multi1_body_prepend)
    next
      case (Break p)
      with f Some show ?thesis
        by (cases p) (simp add: multi1_loop.simps [of "prepend d g" name fh s]
            multi1_loop.simps [of g name fh s] multi1_body_prepend)
    next
      case (Return e p)
      with f Some show ?thesis
        by (cases p) (simp add: multi1_loop.simps [of "prepend d g" name fh s]
            multi1_loop.simps [of g name fh s] multi1_body_prepend)
    qed
  qed
qed

lemma multi2_loop_prepend:
  "multi2_loop (prepend d g) name fh s =
     (case multi2_loop g name fh s of (e, g', r) \<Rightarrow> (e, prepend d g', r))"
proof (induction g name fh s rule: multi2_loop.induct)
  case (1 g name fh s)
  obtain l fh' where f: "fgets 1024 fh = (l, fh')" by (cases "fgets 1024 fh")
  show ?case
  proof (cases l)
    case None
    with f show ?thesis
      by (simp add: multi2_loop.simps [of "prepend d g" name fh s] multi2_loop.simps [of g name fh s])
  next
    case (Some buffer)
    show ?thesis
    proof (cases "multi2_body g name buffer s")
      case (Continue p)
      obtain g1 s1 where p: "p = (g1, s1)" by (cases p)
      from "1.IH" [OF f [symmetric] Some Continue p [symmetric]] f Some Continue p
      show ?thesis
        by (simp add: multi2_loop.simps [of "prepend d g" name fh s] multi2_loop.simps [of g name fh s]
            multi2_body_prepend)
    next
      case (Break p)
      with f Some show ?thesis
        by (cases p) (simp add: multi2_loop.simps [of "prepend d g" name fh s]
            multi2_loop.simps [of g name fh s] multi2_body_prepend)
    next
      case (Return e p)
      with f Some show ?thesis
        by (cases p) (simp add: multi2_loop.simps [of "prepend d g" name fh s]
            multi2_loop.simps [of g name fh s] multi2_body_prepend)
    qed
  qed
qed

lemma single_read_prepend:
  "single_read (prepend d g) name fh = apsnd (prepend d) (single_read g name fh)"
proof -
  obtain a fh' where l: "single_loop fh zero_counters = (a, fh')"
    by (cases "single_loop fh zero_counters") auto
  show ?thesis
    by (simp add: single_read_def l Let_def iostats_submit_prepend compression_submit_prepend)
qed

lemma multi1_read_prepend:
  "multi1_read (prepend d g) name fh = apsnd (prepend d) (multi1_read g name fh)"
proof -
  obtain e g' fh' s' where l: "multi1_loop g name fh \<lparr>found_header = False, sum_users = 0\<rparr> = (e, g', fh', s')"
    by (cases "multi1_loop g name fh \<lparr>found_header = False, sum_users = 0\<rparr>") auto
  show ?thesis
    by (cases e) (simp_all add: multi1_read_def multi1_loop_prepend l numusers_submit_prepend)
qed

lemma multi2_read_prepend:
  "multi2_read (prepend d g) name fh = apsnd (prepend d) (multi2_read g name fh)"
proof -
  obtain e g' fh' s' where l: "multi2_loop g name fh multi2_init = (e, g', fh', s')"
    by (cases "multi2_loop g name fh multi2_init") auto
  show ?thesis
    by (cases e) (simp_all add: multi2_read_def multi2_loop_prepend l numusers_submit_prepend)
qed

lemma openvpn_read_prepend:
  "openvpn_read (prepend d g) st fs = apsnd (prepend d) (openvpn_read g st fs)"
  by (simp add: openvpn_read_def single_read_prepend multi1_read_prepend multi2_read_prepend
      split: option.splits prod.splits)

lemma openvpn_read_emitted:
  "openvpn_read g st fs =
     (fst (openvpn_read (g\<lparr>dispatched := []\<rparr>) st fs), g\<lparr>dispatched := dispatched g @ emitted g st fs\<rparr>)"
proof -
  let ?z = "g\<lparr>dispatched := []\<rparr>"
  obtain r z' where o: "openvpn_read ?z st fs = (r, z')" by (cases "openvpn_read ?z st fs")
  from openvpn_read_grows [of ?z st fs] o have "grows ?z z'" by simp
  then have z': "z' = g\<lparr>dispatched := dispatched z'\<rparr>"
    by (simp add: grows_def)
  have "prepend (dispatched g) ?z = g" by (simp add: prepend_def)
  then have "openvpn_read g st fs = apsnd (prepend (dispatched g)) (openvpn_read ?z st fs)"
    using openvpn_read_prepend [of "dispatched g" ?z st fs] by (simp only:)
  also have "\<dots> = (r, prepend (dispatched g) z')" by (simp add: o)
  also have "prepend (dispatched g) z' = g\<lparr>dispatched := dispatched g @ dispatched z'\<rparr>"
    by (subst z') (simp add: prepend_def)
  finally show ?thesis by (simp add: emitted_def o)
qed

text \<open>
  C7. Two read cycles in a row on the same file system, with the state of the first
  passed to the second: both return the same result, neither changes a flag, and each
  appends the same sequence of value lists, \<open>emitted g st fs\<close>, which depends on the
  flags and the file only and not on what was dispatched before.
\<close>

theorem read_cycle_twice:
  "fst (openvpn_read (snd (openvpn_read g st fs)) st fs) = fst (openvpn_read g st fs)
   \<and> snd (openvpn_read g st fs) = g\<lparr>dispatched := dispatched g @ emitted g st fs\<rparr>
   \<and> snd (openvpn_read (snd (openvpn_read g st fs)) st fs)
       = g\<lparr>dispatched := (dispatched g @ emitted g st fs) @ emitted g st fs\<rparr>"
proof -
  let ?g1 = "g\<lparr>dispatched := dispatched g @ emitted g st fs\<rparr>"
  have a: "openvpn_read g st fs = (fst (openvpn_read (g\<lparr>dispatched := []\<rparr>) st fs), ?g1)"
    by (rule openvpn_read_emitted)
  have e: "emitted ?g1 st fs = emitted g st fs"
    by (simp add: emitted_def)
  have "openvpn_read ?g1 st fs =
          (fst (openvpn_read (?g1\<lparr>dispatched := []\<rparr>) st fs),
           ?g1\<lparr>dispatched := dispatched ?g1 @ emitted ?g1 st fs\<rparr>)"
    by (rule openvpn_read_emitted)
  then have b: "openvpn_read ?g1 st fs =
          (fst (openvpn_read (g\<lparr>dispatched := []\<rparr>) st fs),
           g\<lparr>dispatched := (dispatched g @ emitted g st fs) @ emitted g st fs\<rparr>)"
    by (simp add: e)
  from a b show ?thesis by simp
qed


text \<open>
  Two cycles on the file of Scenario A from the initial state: the four samples, twice.
\<close>

theorem read_cycle_twice_witness:
  "snd (openvpn_read (initial_state 128) status_source
          (one_file ''/var/run/openvpn-status.log'' (TITLE_SINGLE @ scenario_A) False))
     = (initial_state 128)\<lparr>dispatched := scenario_A_samples\<rparr>
   \<and> snd (openvpn_read
          (snd (openvpn_read (initial_state 128) status_source
                  (one_file ''/var/run/openvpn-status.log'' (TITLE_SINGLE @ scenario_A) False)))
          status_source
          (one_file ''/var/run/openvpn-status.log'' (TITLE_SINGLE @ scenario_A) False))
     = (initial_state 128)\<lparr>dispatched := scenario_A_samples @ scenario_A_samples\<rparr>"
proof -
  let ?fs = "one_file ''/var/run/openvpn-status.log'' (TITLE_SINGLE @ scenario_A) False"
  have e: "emitted (initial_state 128) status_source ?fs = scenario_A_samples"
    by code_simp
  have d: "dispatched (initial_state 128) = []"
    by (simp add: initial_state_def)
  note t = read_cycle_twice [of "initial_state 128" status_source ?fs]
  from t have "snd (openvpn_read (initial_state 128) status_source ?fs)
      = (initial_state 128)\<lparr>dispatched := dispatched (initial_state 128)
           @ emitted (initial_state 128) status_source ?fs\<rparr>"
    by blast
  then have a: "snd (openvpn_read (initial_state 128) status_source ?fs)
      = (initial_state 128)\<lparr>dispatched := scenario_A_samples\<rparr>"
    by (simp only: e d append_Nil)
  from t have "snd (openvpn_read (snd (openvpn_read (initial_state 128) status_source ?fs))
        status_source ?fs)
      = (initial_state 128)\<lparr>dispatched := (dispatched (initial_state 128)
           @ emitted (initial_state 128) status_source ?fs)
           @ emitted (initial_state 128) status_source ?fs\<rparr>"
    by blast
  then have b: "snd (openvpn_read (snd (openvpn_read (initial_state 128) status_source ?fs))
        status_source ?fs)
      = (initial_state 128)\<lparr>dispatched := scenario_A_samples @ scenario_A_samples\<rparr>"
    by (simp only: e d append_Nil)
  from a b show ?thesis by (intro conjI)
qed


section \<open>Malformed numbers\<close>

















end
